theory Spec2Isabelle
  imports Main "HOL-Library.Word"
begin

section \<open>The event source\<close>

text \<open>
  The capture script is read through libyaml. The parser object \<open>parser_m\<close> is modelled
  by the list of results that the successive calls of \<open>yaml_parser_parse\<close> deliver:
  \<open>None\<close> is a call that returns 0 (a low-level syntax error), \<open>Some ev\<close> a call
  that fills in the event \<open>ev\<close>. A pull from the exhausted list fails as well.
\<close>

datatype yaml_event_type =
    YAML_NO_EVENT
  | YAML_STREAM_START_EVENT
  | YAML_STREAM_END_EVENT
  | YAML_DOCUMENT_START_EVENT
  | YAML_DOCUMENT_END_EVENT
  | YAML_ALIAS_EVENT
  | YAML_SCALAR_EVENT
  | YAML_SEQUENCE_START_EVENT
  | YAML_SEQUENCE_END_EVENT
  | YAML_MAPPING_START_EVENT
  | YAML_MAPPING_END_EVENT

text \<open>
  \<open>yaml_event_t\<close>: the event type, the start mark (line, column) and the bytes that
  \<open>data.scalar.value\<close> and \<open>data.scalar.length\<close> denote. The source reads the
  scalar member of the union in \<open>parseControl\<close> without checking the event type; for an
  event that is not a scalar the field \<open>data_scalar\<close> stands for whatever those bytes
  read as, and no theorem constrains it.
\<close>

record yaml_event =
  event_type :: yaml_event_type
  start_mark :: "nat \<times> nat"
  data_scalar :: string

section \<open>Controls\<close>

datatype ControlType =
    ControlTypeNone
  | ControlTypeBool
  | ControlTypeByte
  | ControlTypeInteger32
  | ControlTypeInteger64
  | ControlTypeFloat
  | ControlTypeString
  | ControlTypeRectangle
  | ControlTypeSize

record ControlId =
  id_m :: "32 word"
  name_m :: string
  type_m :: ControlType

text \<open>
  \<open>ControlValue\<close>: empty, or one of the variants that \<open>unpackControl\<close> sets. The
  type \<open>'f\<close> is the 32-bit float; its values come from the C library's \<open>strtof\<close>
  only, which the functions below take as a parameter. \<open>float32\<close> and \<open>strtof_C\<close>
  below are the floats and that function.
\<close>

datatype 'f ControlValue =
    ControlValueNone
  | ValueBool bool
  | ValueByte "8 word"
  | ValueInteger32 "32 word"
  | ValueInteger64 "64 word"
  | ValueFloat 'f
  | ValueString string

type_synonym 'f ControlList = "32 word \<rightharpoonup> 'f ControlValue"

definition ControlList_set ::
  "'f ControlList \<Rightarrow> 32 word \<Rightarrow> 'f ControlValue \<Rightarrow> 'f ControlList" where
  \<comment> \<open>Modelled from the spec: \<open>ControlList::set\<close> is declared outside the files at hand;
      a ControlSet is a mapping from the numeric id to the value with unique keys, and
      the parser inserts (identity, value) into the current set.\<close>
  "ControlList_set controls i val = controls(i \<mapsto> val)"

section \<open>Diagnostics written to the error stream\<close>

datatype diag =
    FailedToOpen string
    \<comment> \<open>"Failed to open capture script <fileName>: ..."\<close>
  | FailedToInitialize
    \<comment> \<open>"Failed to initialize yaml parser"\<close>
  | ExpectedEvent "nat \<times> nat" string string
    \<comment> \<open>"Capture script error on line .. column ..: Expected <a> event, got <b>"\<close>
  | UnsupportedSection string
    \<comment> \<open>"Unsupported section '<section>'"\<close>
  | UnsupportedControl string
    \<comment> \<open>"Unsupported control '<name>'"\<close>
  | UnsupportedRepr string string string
    \<comment> \<open>"Unsupported control '<repr>' for <typeName> control <name>"\<close>

section \<open>The object\<close>

text \<open>
  The members \<open>controls_\<close>, \<open>frameControls_\<close>, \<open>parser_\<close> and \<open>valid_\<close> of the
  class carry the suffix \<open>_m\<close> here (as do \<open>id_\<close>, \<open>name_\<close> and \<open>type_\<close> of
  \<open>ControlId\<close>), since a field name cannot end in an underscore. The field \<open>cerr\<close> is
  the text written to the error stream so far.
\<close>

record 'f CaptureScript =
  controls_m :: "string \<rightharpoonup> ControlId"
  frameControls_m :: "32 word \<rightharpoonup> 'f ControlList"
  parser_m :: "yaml_event option list"
  valid_m :: bool
  cerr :: "diag list"

definition EINVAL :: int where
  "EINVAL = 22"

section \<open>C library functions\<close>

text \<open>
  \<open>c_str\<close>: the C functions read the string up to its first NUL byte.
\<close>

definition c_str :: "string \<Rightarrow> string" where
  "c_str s = takeWhile (\<lambda>c. c \<noteq> CHR 0x00) s"

definition isspace :: "char \<Rightarrow> bool" where
  "isspace c = (c \<in> set [CHR 0x20, CHR 0x09, CHR 0x0A, CHR 0x0B, CHR 0x0C, CHR 0x0D])"

definition isdigit :: "char \<Rightarrow> bool" where
  "isdigit c = (48 \<le> (of_char c :: nat) \<and> (of_char c :: nat) \<le> 57)"

definition digit_value :: "char \<Rightarrow> int" where
  "digit_value c = int (of_char c) - 48"

definition LONG_MAX :: int where
  "LONG_MAX = 2 ^ 63 - 1"

definition LONG_MIN :: int where
  "LONG_MIN = - (2 ^ 63)"

definition LLONG_MAX :: int where
  "LLONG_MAX = 2 ^ 63 - 1"

definition LLONG_MIN :: int where
  "LLONG_MIN = - (2 ^ 63)"

text \<open>
  \<open>strtol(s, NULL, 10)\<close> as ISO C describes it: white space is skipped, an optional
  sign is read, then the longest run of decimal digits; with no digit the result is 0,
  and a value outside the range of the result type is replaced by the nearest bound.
  \<open>long\<close> is 64 bits wide (LP64).
\<close>

definition strto_sign :: "string \<Rightarrow> bool \<times> string" where
  "strto_sign s =
     (case s of
        [] \<Rightarrow> (False, [])
      | c # r \<Rightarrow> if c = CHR ''-'' then (True, r)
                 else if c = CHR ''+'' then (False, r)
                 else (False, s))"

definition strto_digits :: "string \<Rightarrow> int" where
  "strto_digits ds = foldl (\<lambda>acc c. 10 * acc + digit_value c) 0 ds"

definition strto_range :: "int \<Rightarrow> int \<Rightarrow> string \<Rightarrow> int" where
  "strto_range lo hi s =
     (case strto_sign (dropWhile isspace (c_str s)) of
        (neg, r) \<Rightarrow>
          let n = strto_digits (takeWhile isdigit r);
              v = (if neg then - n else n)
          in max lo (min hi v))"

definition strtol :: "string \<Rightarrow> int" where
  "strtol s = strto_range LONG_MIN LONG_MAX s"

definition strtoll :: "string \<Rightarrow> int" where
  "strtoll s = strto_range LLONG_MIN LLONG_MAX s"

text \<open>
  \<open>atoi\<close> returns \<open>(int) strtol(s, NULL, 10)\<close>, as the GNU C library defines it (ISO C
  leaves the result open when the value does not fit); the word holds the bits of the
  \<open>int\<close>, which the conversion to \<open>unsigned int\<close> keeps.
\<close>

definition atoi :: "string \<Rightarrow> 32 word" where
  "atoi s = word_of_int (strtol s)"

text \<open>
  The 32-bit floats. \<open>Finite neg m e\<close> is the number \<open>m * 2 ^ e\<close>, negative when \<open>neg\<close>
  holds; the values that the conversion below returns have \<open>m < 2 ^ 24\<close> and
  \<open>- 149 \<le> e \<le> 104\<close>, with \<open>e = - 149\<close> when \<open>m < 2 ^ 23\<close> (zero and the subnormal
  numbers). A NaN is kept with its sign only.
\<close>

datatype float32 = Finite bool nat int | Infinity bool | NaN bool

definition float32_zero :: float32 where
  "float32_zero = Finite False 0 (- 149)"

text \<open>
  Rounding of the positive fraction \<open>num / den\<close> to the nearest 32-bit float, to the
  even significand when two are equally near: \<open>bitlen\<close> is the number of binary digits
  of a number, \<open>floor_log2\<close> the exponent of the largest power of 2 that is not above
  the fraction; a result above the largest float is infinity.
\<close>

fun bitlen :: "nat \<Rightarrow> nat" where
  "bitlen n = (if n = 0 then 0 else Suc (bitlen (n div 2)))"

declare bitlen.simps [simp del]

definition floor_log2 :: "nat \<Rightarrow> nat \<Rightarrow> int" where
  "floor_log2 num den =
     (let k = int (bitlen num) - int (bitlen den)
      in if den * 2 ^ nat k \<le> num * 2 ^ nat (- k) then k else k - 1)"

definition round_nearest_even :: "nat \<Rightarrow> nat \<Rightarrow> nat" where
  "round_nearest_even num den =
     (let q = num div den; r = num mod den
      in if 2 * r < den then q
         else if den < 2 * r then q + 1
         else if even q then q else q + 1)"

definition binary32_round :: "bool \<Rightarrow> nat \<Rightarrow> nat \<Rightarrow> float32" where
  "binary32_round neg num den =
     (if num = 0 then Finite neg 0 (- 149)
      else
        let e = max (floor_log2 num den - 23) (- 149);
            m = (if 0 \<le> e then round_nearest_even num (den * 2 ^ nat e)
                 else round_nearest_even (num * 2 ^ nat (- e)) den);
            e1 = (if m = 2 ^ 24 then e + 1 else e);
            m1 = (if m = 2 ^ 24 then 2 ^ 23 else m)
        in if 104 < e1 then Infinity neg else Finite neg m1 e1)"

definition binary32_scale :: "bool \<Rightarrow> nat \<Rightarrow> nat \<Rightarrow> int \<Rightarrow> float32" where
  "binary32_scale neg n base ex =
     (if 0 \<le> ex then binary32_round neg (n * base ^ nat ex) 1
      else binary32_round neg n (base ^ nat (- ex)))"

text \<open>
  \<open>strtof(s, NULL)\<close> as ISO C describes it and the GNU C library computes it: white
  space is skipped and an optional sign is read; then a decimal number (digits with an
  optional point, at least one digit, and an optional exponent \<open>e\<close> with digits), or a
  hexadecimal one after \<open>0x\<close> (with an optional binary exponent \<open>p\<close>), rounded to the
  nearest float; or \<open>inf\<close> or \<open>nan\<close> in any letter case; with none of these the result
  is the float zero. \<open>strtof_C\<close> takes the C string, as \<open>unpackControl\<close> passes it.
\<close>

definition tolower :: "char \<Rightarrow> char" where
  "tolower c =
     (if 65 \<le> (of_char c :: nat) \<and> (of_char c :: nat) \<le> 90
      then char_of ((of_char c :: nat) + 32) else c)"

definition isxdigit :: "char \<Rightarrow> bool" where
  "isxdigit c =
     (isdigit c \<or> (97 \<le> (of_char (tolower c) :: nat) \<and> (of_char (tolower c) :: nat) \<le> 102))"

definition xdigit_value :: "char \<Rightarrow> nat" where
  "xdigit_value c = (if isdigit c then of_char c - 48 else of_char (tolower c) - 87)"

definition digits_value :: "nat \<Rightarrow> string \<Rightarrow> nat" where
  "digits_value base ds = foldl (\<lambda>acc c. base * acc + xdigit_value c) 0 ds"

definition strtof_mantissa :: "(char \<Rightarrow> bool) \<Rightarrow> string \<Rightarrow> string \<times> string \<times> string" where
  "strtof_mantissa isd r =
     (let ip = takeWhile isd r; r1 = dropWhile isd r
      in case r1 of
           [] \<Rightarrow> (ip, [], [])
         | c # r2 \<Rightarrow>
             if c = CHR ''.'' then (ip, takeWhile isd r2, dropWhile isd r2)
             else (ip, [], r1))"

definition strtof_exponent :: "char \<Rightarrow> string \<Rightarrow> int" where
  "strtof_exponent mark r =
     (case r of
        [] \<Rightarrow> 0
      | c # r1 \<Rightarrow>
          if tolower c \<noteq> mark then 0
          else (case strto_sign r1 of
                  (neg, r2) \<Rightarrow>
                    let v = int (digits_value 10 (takeWhile isdigit r2))
                    in if neg then - v else v))"

definition strtof_starts_number :: "string \<Rightarrow> bool" where
  "strtof_starts_number r =
     (case r of
        [] \<Rightarrow> False
      | c # r1 \<Rightarrow>
          isdigit c \<or>
          (c = CHR ''.'' \<and> (case r1 of [] \<Rightarrow> False | d # r2 \<Rightarrow> isdigit d)))"

definition strtof_hex :: "string \<Rightarrow> string option" where
  "strtof_hex r =
     (case r of
        c # x # r1 \<Rightarrow> if c = CHR ''0'' \<and> tolower x = CHR ''x'' then Some r1 else None
      | _ \<Rightarrow> None)"

definition strtof_C :: "string \<Rightarrow> float32" where
  "strtof_C s =
     (case strto_sign (dropWhile isspace s) of
        (neg, r) \<Rightarrow>
          if strtof_starts_number r then
            (case strtof_hex r of
               Some r1 \<Rightarrow>
                 (case strtof_mantissa isxdigit r1 of
                    (ip, fp, rest) \<Rightarrow>
                      if ip = [] \<and> fp = [] then Finite neg 0 (- 149)
                      else binary32_scale neg (digits_value 16 (ip @ fp)) 2
                             (strtof_exponent (CHR ''p'') rest - 4 * int (length fp)))
             | None \<Rightarrow>
                 (case strtof_mantissa isdigit r of
                    (ip, fp, rest) \<Rightarrow>
                      binary32_scale neg (digits_value 10 (ip @ fp)) 10
                        (strtof_exponent (CHR ''e'') rest - int (length fp))))
          else if map tolower (take 3 r) = ''inf'' then Infinity neg
          else if map tolower (take 3 r) = ''nan'' then NaN neg
          else float32_zero)"

section \<open>The event cursor\<close>

fun eventTypeName :: "yaml_event_type \<Rightarrow> string" where
  "eventTypeName YAML_STREAM_START_EVENT = ''stream-start''"
| "eventTypeName YAML_STREAM_END_EVENT = ''stream-end''"
| "eventTypeName YAML_DOCUMENT_START_EVENT = ''document-start''"
| "eventTypeName YAML_DOCUMENT_END_EVENT = ''document-end''"
| "eventTypeName YAML_ALIAS_EVENT = ''alias''"
| "eventTypeName YAML_SCALAR_EVENT = ''scalar''"
| "eventTypeName YAML_SEQUENCE_START_EVENT = ''sequence-start''"
| "eventTypeName YAML_SEQUENCE_END_EVENT = ''sequence-end''"
| "eventTypeName YAML_MAPPING_START_EVENT = ''mapping-start''"
| "eventTypeName YAML_MAPPING_END_EVENT = ''mapping-end''"
| "eventTypeName YAML_NO_EVENT = ''[type 0]''"

definition checkEvent ::
  "yaml_event \<Rightarrow> yaml_event_type \<Rightarrow> 'f CaptureScript \<Rightarrow> bool \<times> 'f CaptureScript" where
  "checkEvent event expectedType st =
     (if event_type event \<noteq> expectedType
      then (False, st\<lparr>cerr := cerr st @
              [ExpectedEvent (start_mark event) (eventTypeName expectedType)
                 (eventTypeName (event_type event))]\<rparr>)
      else (True, st))"

definition nextEvent ::
  "yaml_event_type \<Rightarrow> 'f CaptureScript \<Rightarrow> yaml_event option \<times> 'f CaptureScript" where
  "nextEvent expectedType st =
     (case parser_m st of
        [] \<Rightarrow> (None, st)
      | None # rest \<Rightarrow> (None, st\<lparr>parser_m := rest\<rparr>)
      | Some event # rest \<Rightarrow>
          let st1 = st\<lparr>parser_m := rest\<rparr> in
          if expectedType \<noteq> YAML_NO_EVENT
          then (case checkEvent event expectedType st1 of
                  (ok, st2) \<Rightarrow> if \<not> ok then (None, st2) else (Some event, st2))
          else (Some event, st1))"

definition eventScalarValue :: "yaml_event \<Rightarrow> string" where
  "eventScalarValue event = data_scalar event"

definition parseScalar :: "'f CaptureScript \<Rightarrow> string \<times> 'f CaptureScript" where
  "parseScalar st =
     (case nextEvent YAML_SCALAR_EVENT st of
        (None, st1) \<Rightarrow> ([], st1)
      | (Some event, st1) \<Rightarrow> (eventScalarValue event, st1))"

section \<open>The value decoder\<close>

fun typeNames :: "ControlType \<Rightarrow> string" where
  "typeNames ControlTypeNone = ''none''"
| "typeNames ControlTypeBool = ''bool''"
| "typeNames ControlTypeByte = ''byte''"
| "typeNames ControlTypeInteger32 = ''int32''"
| "typeNames ControlTypeInteger64 = ''int64''"
| "typeNames ControlTypeFloat = ''float''"
| "typeNames ControlTypeString = ''string''"
| "typeNames ControlTypeRectangle = ''Rectangle''"
| "typeNames ControlTypeSize = ''Size''"

text \<open>\<open>unpackFailure\<close> and \<open>unpackControl\<close> return what they write to the error stream.\<close>

definition unpackFailure :: "ControlId \<Rightarrow> string \<Rightarrow> diag list" where
  "unpackFailure i repr = [UnsupportedRepr repr (typeNames (type_m i)) (name_m i)]"

definition unpackControl ::
  "(string \<Rightarrow> 'f) \<Rightarrow> ControlId \<Rightarrow> string \<Rightarrow> 'f ControlValue \<times> diag list" where
  "unpackControl strtof i repr =
     (case type_m i of
        ControlTypeNone \<Rightarrow> (ControlValueNone, [])
      | ControlTypeBool \<Rightarrow>
          if repr = ''true'' then (ValueBool True, [])
          else if repr = ''false'' then (ValueBool False, [])
          else (ControlValueNone, unpackFailure i repr)
      | ControlTypeByte \<Rightarrow> (ValueByte (word_of_int (strtol repr)), [])
      | ControlTypeInteger32 \<Rightarrow> (ValueInteger32 (word_of_int (strtol repr)), [])
      | ControlTypeInteger64 \<Rightarrow> (ValueInteger64 (word_of_int (strtoll repr)), [])
      | ControlTypeFloat \<Rightarrow> (ValueFloat (strtof (c_str repr)), [])
      | ControlTypeString \<Rightarrow> (ValueString repr, [])
      | ControlTypeRectangle \<Rightarrow> (ControlValueNone, [])
      | ControlTypeSize \<Rightarrow> (ControlValueNone, []))"

section \<open>The script parser\<close>

definition parseControl ::
  "(string \<Rightarrow> 'f) \<Rightarrow> yaml_event \<Rightarrow> 'f ControlList \<Rightarrow> 'f CaptureScript
     \<Rightarrow> int \<times> 'f ControlList \<times> 'f CaptureScript" where
  "parseControl strtof event controls st =
     (let name = eventScalarValue event in
      if name = [] then (- EINVAL, controls, st)
      else case controls_m st name of
          None \<Rightarrow> (- EINVAL, controls, st\<lparr>cerr := cerr st @ [UnsupportedControl name]\<rparr>)
        | Some controlId \<Rightarrow>
            (case parseScalar st of
               (val_text, st1) \<Rightarrow>
                 if val_text = [] then (- EINVAL, controls, st1)
                 else (case unpackControl strtof controlId val_text of
                         (val, msgs) \<Rightarrow>
                           (0, ControlList_set controls (id_m controlId) val,
                            st1\<lparr>cerr := cerr st1 @ msgs\<rparr>))))"

lemma nextEvent_parser_le:
  "nextEvent t st = (r, st1) \<Longrightarrow> length (parser_m st1) \<le> length (parser_m st)"
  by (auto simp: nextEvent_def checkEvent_def Let_def split: list.splits option.splits if_splits)

lemma nextEvent_parser_less:
  "nextEvent t st = (Some ev, st1) \<Longrightarrow> length (parser_m st1) < length (parser_m st)"
  by (auto simp: nextEvent_def checkEvent_def Let_def split: list.splits option.splits if_splits)

lemma parseScalar_parser_le:
  "parseScalar st = (s, st1) \<Longrightarrow> length (parser_m st1) \<le> length (parser_m st)"
  by (auto simp: parseScalar_def split: prod.splits option.splits dest: nextEvent_parser_le)

lemma parseControl_parser_le:
  "parseControl strtof ev controls st = (ret, controls1, st1)
     \<Longrightarrow> length (parser_m st1) \<le> length (parser_m st)"
  by (auto simp: parseControl_def Let_def
           split: prod.splits option.splits if_splits dest: parseScalar_parser_le)

text \<open>
  The loop over the controls of one frame in \<open>parseFrame\<close>. The result code 0 is the
  \<open>break\<close> at the mapping-end event; every other code is a \<open>return\<close> from \<open>parseFrame\<close>.
\<close>

function parseFrame_controls ::
  "(string \<Rightarrow> 'f) \<Rightarrow> 'f ControlList \<Rightarrow> 'f CaptureScript
     \<Rightarrow> int \<times> 'f ControlList \<times> 'f CaptureScript" where
  "parseFrame_controls strtof controls st =
     (case nextEvent YAML_NO_EVENT st of
        (None, st1) \<Rightarrow> (- EINVAL, controls, st1)
      | (Some event, st1) \<Rightarrow>
          if event_type event = YAML_MAPPING_END_EVENT then (0, controls, st1)
          else (case parseControl strtof event controls st1 of
                  (ret, controls1, st2) \<Rightarrow>
                    if ret \<noteq> 0 then (ret, controls1, st2)
                    else parseFrame_controls strtof controls1 st2))"
  by pat_completeness auto
termination
proof (relation "measure (\<lambda>(strtof, controls, st). length (parser_m st))", goal_cases)
  case 1
  show ?case by simp
next
  case (2 strtof controls st r st1 ev ret q controls1 st2)
  have "length (parser_m st1) < length (parser_m st)"
    using 2(1,2) nextEvent_parser_less [of YAML_NO_EVENT st ev st1] by simp
  moreover have "length (parser_m st2) \<le> length (parser_m st1)"
    using 2(4,5) parseControl_parser_le [of strtof ev controls st1 ret controls1 st2] by simp
  ultimately show ?case by simp
qed

declare parseFrame_controls.simps [simp del]

lemma parseFrame_controls_parser_le:
  "parseFrame_controls strtof controls st = (ret, controls1, st1)
     \<Longrightarrow> length (parser_m st1) \<le> length (parser_m st)"
proof (induction strtof controls st arbitrary: ret controls1 st1 rule: parseFrame_controls.induct)
  case (1 strtof controls st)
  obtain r sa where ne: "nextEvent YAML_NO_EVENT st = (r, sa)"
    by (cases "nextEvent YAML_NO_EVENT st")
  have le: "length (parser_m sa) \<le> length (parser_m st)"
    using ne by (rule nextEvent_parser_le)
  show ?case
  proof (cases r)
    case None
    with "1.prems" ne le show ?thesis
      by (simp add: parseFrame_controls.simps [of strtof controls st])
  next
    case (Some ev)
    show ?thesis
    proof (cases "event_type ev = YAML_MAPPING_END_EVENT")
      case True
      with "1.prems" ne le Some show ?thesis
        by (simp add: parseFrame_controls.simps [of strtof controls st])
    next
      case False
      obtain rc c2 s2 where pc: "parseControl strtof ev controls sa = (rc, c2, s2)"
        by (cases "parseControl strtof ev controls sa")
      have le2: "length (parser_m s2) \<le> length (parser_m sa)"
        using pc by (rule parseControl_parser_le)
      show ?thesis
      proof (cases "rc = 0")
        case True
        have "parseFrame_controls strtof c2 s2 = (ret, controls1, st1)"
          using "1.prems" ne Some False pc True
          by (simp add: parseFrame_controls.simps [of strtof controls st])
        then have "length (parser_m st1) \<le> length (parser_m s2)"
          using "1.IH" [OF ne [symmetric] Some False pc [symmetric] refl] True by simp
        with le le2 show ?thesis by simp
      next
        case nz: False
        with "1.prems" ne Some False pc le le2 show ?thesis
          by (simp add: parseFrame_controls.simps [of strtof controls st])
      qed
    qed
  qed
qed

text \<open>
  \<open>parseFrame\<close>: the frame is stored in \<open>frameControls_\<close> when the loop over the
  controls leaves at the mapping-end event, and the closing mapping-end of the frame is
  read afterwards.
\<close>

definition parseFrame ::
  "(string \<Rightarrow> 'f) \<Rightarrow> yaml_event \<Rightarrow> 'f CaptureScript \<Rightarrow> int \<times> 'f CaptureScript" where
  "parseFrame strtof event st =
     (case checkEvent event YAML_MAPPING_START_EVENT st of
        (ok, st0) \<Rightarrow>
          if \<not> ok then (- EINVAL, st0)
          else (case parseScalar st0 of
            (key, st1) \<Rightarrow>
              if key = [] then (- EINVAL, st1)
              else let frameId = atoi key in
                (case nextEvent YAML_MAPPING_START_EVENT st1 of
                   (None, st2) \<Rightarrow> (- EINVAL, st2)
                 | (Some ev2, st2) \<Rightarrow>
                     (case parseFrame_controls strtof Map.empty st2 of
                        (ret, controls, st3) \<Rightarrow>
                          if ret \<noteq> 0 then (ret, st3)
                          else let st4 = st3\<lparr>frameControls_m :=
                                         (frameControls_m st3)(frameId \<mapsto> controls)\<rparr> in
                            (case nextEvent YAML_MAPPING_END_EVENT st4 of
                               (None, st5) \<Rightarrow> (- EINVAL, st5)
                             | (Some ev3, st5) \<Rightarrow> (0, st5))))))"

lemma checkEvent_parser:
  "checkEvent ev t st = (ok, st1) \<Longrightarrow> parser_m st1 = parser_m st"
  by (auto simp: checkEvent_def split: if_splits)

lemma parseFrame_parser_le:
  assumes "parseFrame strtof ev st = (ret, st1)"
  shows "length (parser_m st1) \<le> length (parser_m st)"
proof -
  obtain ok s0 where a: "checkEvent ev YAML_MAPPING_START_EVENT st = (ok, s0)"
    by (cases "checkEvent ev YAML_MAPPING_START_EVENT st")
  obtain key s1 where b: "parseScalar s0 = (key, s1)"
    by (cases "parseScalar s0")
  obtain r s2 where c: "nextEvent YAML_MAPPING_START_EVENT s1 = (r, s2)"
    by (cases "nextEvent YAML_MAPPING_START_EVENT s1")
  obtain rc cl s3 where d: "parseFrame_controls strtof Map.empty s2 = (rc, cl, s3)"
    by (cases "parseFrame_controls strtof Map.empty s2")
  define s4 where "s4 = s3\<lparr>frameControls_m := (frameControls_m s3)(atoi key \<mapsto> cl)\<rparr>"
  obtain r5 s5 where e: "nextEvent YAML_MAPPING_END_EVENT s4 = (r5, s5)"
    by (cases "nextEvent YAML_MAPPING_END_EVENT s4")
  have l0: "parser_m s0 = parser_m st" using a by (rule checkEvent_parser)
  have l1: "length (parser_m s1) \<le> length (parser_m s0)" using b by (rule parseScalar_parser_le)
  have l2: "length (parser_m s2) \<le> length (parser_m s1)" using c by (rule nextEvent_parser_le)
  have l3: "length (parser_m s3) \<le> length (parser_m s2)"
    using d by (rule parseFrame_controls_parser_le)
  have l4: "parser_m s4 = parser_m s3" by (simp add: s4_def)
  have l5: "length (parser_m s5) \<le> length (parser_m s4)" using e by (rule nextEvent_parser_le)
  have "st1 \<in> {s0, s1, s2, s3, s5}"
    using assms a b c d e
    by (auto simp: parseFrame_def Let_def s4_def split: if_splits option.splits)
  with l0 l1 l2 l3 l4 l5 show ?thesis by auto
qed

text \<open>The loop over the frames of the sequence in \<open>parseFrames\<close>.\<close>

function parseFrames_loop ::
  "(string \<Rightarrow> 'f) \<Rightarrow> 'f CaptureScript \<Rightarrow> int \<times> 'f CaptureScript" where
  "parseFrames_loop strtof st =
     (case nextEvent YAML_NO_EVENT st of
        (None, st1) \<Rightarrow> (- EINVAL, st1)
      | (Some event, st1) \<Rightarrow>
          if event_type event = YAML_SEQUENCE_END_EVENT then (0, st1)
          else (case parseFrame strtof event st1 of
                  (ret, st2) \<Rightarrow>
                    if ret \<noteq> 0 then (ret, st2)
                    else parseFrames_loop strtof st2))"
  by pat_completeness auto
termination
proof (relation "measure (\<lambda>(strtof, st). length (parser_m st))", goal_cases)
  case 1
  show ?case by simp
next
  case (2 strtof st r st1 ev ret st2)
  have "length (parser_m st1) < length (parser_m st)"
    using 2(1,2) nextEvent_parser_less [of YAML_NO_EVENT st ev st1] by simp
  moreover have "length (parser_m st2) \<le> length (parser_m st1)"
    using 2(4) parseFrame_parser_le [of strtof ev st1 ret st2] by simp
  ultimately show ?case by simp
qed

declare parseFrames_loop.simps [simp del]

definition parseFrames ::
  "(string \<Rightarrow> 'f) \<Rightarrow> 'f CaptureScript \<Rightarrow> int \<times> 'f CaptureScript" where
  "parseFrames strtof st =
     (case nextEvent YAML_SEQUENCE_START_EVENT st of
        (None, st1) \<Rightarrow> (- EINVAL, st1)
      | (Some event, st1) \<Rightarrow> parseFrames_loop strtof st1)"

lemma parseFrames_loop_parser_le:
  "parseFrames_loop strtof st = (ret, st1)
     \<Longrightarrow> length (parser_m st1) \<le> length (parser_m st)"
proof (induction strtof st arbitrary: ret st1 rule: parseFrames_loop.induct)
  case (1 strtof st)
  obtain r sa where ne: "nextEvent YAML_NO_EVENT st = (r, sa)"
    by (cases "nextEvent YAML_NO_EVENT st")
  have le: "length (parser_m sa) \<le> length (parser_m st)"
    using ne by (rule nextEvent_parser_le)
  show ?case
  proof (cases r)
    case None
    with "1.prems" ne le show ?thesis
      by (simp add: parseFrames_loop.simps [of strtof st])
  next
    case (Some ev)
    show ?thesis
    proof (cases "event_type ev = YAML_SEQUENCE_END_EVENT")
      case True
      with "1.prems" ne le Some show ?thesis
        by (simp add: parseFrames_loop.simps [of strtof st])
    next
      case False
      obtain rc s2 where pf: "parseFrame strtof ev sa = (rc, s2)"
        by (cases "parseFrame strtof ev sa")
      have le2: "length (parser_m s2) \<le> length (parser_m sa)"
        using pf by (rule parseFrame_parser_le)
      show ?thesis
      proof (cases "rc = 0")
        case True
        have "parseFrames_loop strtof s2 = (ret, st1)"
          using "1.prems" ne Some False pf True
          by (simp add: parseFrames_loop.simps [of strtof st])
        then have "length (parser_m st1) \<le> length (parser_m s2)"
          using "1.IH" [OF ne [symmetric] Some False pf [symmetric]] True by simp
        with le le2 show ?thesis by simp
      next
        case nz: False
        with "1.prems" ne Some False pf le le2 show ?thesis
          by (simp add: parseFrames_loop.simps [of strtof st])
      qed
    qed
  qed
qed

lemma parseFrames_parser_le:
  assumes "parseFrames strtof st = (ret, st1)"
  shows "length (parser_m st1) \<le> length (parser_m st)"
proof -
  obtain r sa where ne: "nextEvent YAML_SEQUENCE_START_EVENT st = (r, sa)"
    by (cases "nextEvent YAML_SEQUENCE_START_EVENT st")
  have le: "length (parser_m sa) \<le> length (parser_m st)"
    using ne by (rule nextEvent_parser_le)
  show ?thesis
  proof (cases r)
    case None
    with assms ne le show ?thesis by (simp add: parseFrames_def)
  next
    case (Some ev)
    with assms ne have "parseFrames_loop strtof sa = (ret, st1)"
      by (simp add: parseFrames_def)
    then have "length (parser_m st1) \<le> length (parser_m sa)"
      by (rule parseFrames_loop_parser_le)
    with le show ?thesis by simp
  qed
qed

text \<open>
  The loop over the sections in \<open>parseScript\<close>. The call \<open>parseFrames()\<close> is a
  statement of its own: its result code is not read.
\<close>

function parseScript_loop ::
  "(string \<Rightarrow> 'f) \<Rightarrow> 'f CaptureScript \<Rightarrow> int \<times> 'f CaptureScript" where
  "parseScript_loop strtof st =
     (case nextEvent YAML_NO_EVENT st of
        (None, st1) \<Rightarrow> (- EINVAL, st1)
      | (Some event, st1) \<Rightarrow>
          if event_type event = YAML_MAPPING_END_EVENT then (0, st1)
          else (case checkEvent event YAML_SCALAR_EVENT st1 of
                  (ok, st2) \<Rightarrow>
                    if \<not> ok then (- EINVAL, st2)
                    else let section = eventScalarValue event in
                      if section = ''frames''
                      then (case parseFrames strtof st2 of
                              (ret, st3) \<Rightarrow> parseScript_loop strtof st3)
                      else (- EINVAL,
                            st2\<lparr>cerr := cerr st2 @ [UnsupportedSection section]\<rparr>)))"
  by pat_completeness auto
termination
proof (relation "measure (\<lambda>(strtof, st). length (parser_m st))", goal_cases)
  case 1
  show ?case by simp
next
  case (2 strtof st r st1 ev ok st2 sect ret st3)
  have "length (parser_m st1) < length (parser_m st)"
    using 2(1,2) nextEvent_parser_less [of YAML_NO_EVENT st ev st1] by simp
  moreover have "parser_m st2 = parser_m st1"
    using 2(4) checkEvent_parser [of ev YAML_SCALAR_EVENT st1 ok st2] by simp
  moreover have "length (parser_m st3) \<le> length (parser_m st2)"
    using 2 parseFrames_parser_le [of strtof st2 ret st3] by simp
  ultimately show ?case by simp
qed

declare parseScript_loop.simps [simp del]

text \<open>
  \<open>parseScript\<close>. \<open>yaml_init_ok\<close> says whether \<open>yaml_parser_initialize\<close> succeeds;
  when it does not, the function returns the value of \<open>ret\<close>, which is 0.
  \<open>script\<close> is the content of the file as the event source delivers it.
\<close>

definition parseScript ::
  "(string \<Rightarrow> 'f) \<Rightarrow> bool \<Rightarrow> yaml_event option list \<Rightarrow> 'f CaptureScript
     \<Rightarrow> int \<times> 'f CaptureScript" where
  "parseScript strtof yaml_init_ok script st =
     (if \<not> yaml_init_ok then (0, st\<lparr>cerr := cerr st @ [FailedToInitialize]\<rparr>)
      else let st0 = st\<lparr>parser_m := script\<rparr> in
        (case nextEvent YAML_STREAM_START_EVENT st0 of
           (None, st1) \<Rightarrow> (- EINVAL, st1)
         | (Some e1, st1) \<Rightarrow>
             (case nextEvent YAML_DOCUMENT_START_EVENT st1 of
                (None, st2) \<Rightarrow> (- EINVAL, st2)
              | (Some e2, st2) \<Rightarrow>
                  (case nextEvent YAML_MAPPING_START_EVENT st2 of
                     (None, st3) \<Rightarrow> (- EINVAL, st3)
                   | (Some e3, st3) \<Rightarrow> parseScript_loop strtof st3))))"

text \<open>
  The constructor. \<open>camera_controls\<close> lists the control ids of the camera in the
  order in which the loop over \<open>camera_->controls()\<close> visits them; \<open>fh\<close> is the result
  of \<open>fopen\<close>, \<open>None\<close> when the file cannot be opened.
\<close>

definition CaptureScript_ctor ::
  "(string \<Rightarrow> 'f) \<Rightarrow> ControlId list \<Rightarrow> string \<Rightarrow> yaml_event option list option \<Rightarrow> bool
     \<Rightarrow> 'f CaptureScript" where
  "CaptureScript_ctor strtof camera_controls fileName fh yaml_init_ok =
     (let this = \<lparr>controls_m = Map.empty, frameControls_m = Map.empty, parser_m = [],
                   valid_m = False, cerr = []\<rparr> in
      case fh of
        None \<Rightarrow> this\<lparr>cerr := cerr this @ [FailedToOpen fileName]\<rparr>
      | Some script \<Rightarrow>
          let this1 = this\<lparr>controls_m :=
                        foldl (\<lambda>m control. m(name_m control \<mapsto> control))
                          (controls_m this) camera_controls\<rparr> in
          (case parseScript strtof yaml_init_ok script this1 of
             (ret, this2) \<Rightarrow>
               if ret \<noteq> 0 then this2 else this2\<lparr>valid_m := True\<rparr>))"

text \<open>
  \<open>frameControls\<close>: the control list of a frame, the empty static list when the frame
  has no entry.
\<close>

definition frameControls :: "'f CaptureScript \<Rightarrow> 32 word \<Rightarrow> 'f ControlList" where
  "frameControls st frame =
     (case frameControls_m st frame of
        None \<Rightarrow> Map.empty
      | Some controls \<Rightarrow> controls)"

section \<open>Notions used in the statements\<close>

text \<open>
  The type of the variant that a control value holds, as \<open>ControlValue::type()\<close>
  reports it.
\<close>

fun ControlValue_type :: "'f ControlValue \<Rightarrow> ControlType" where
  "ControlValue_type ControlValueNone = ControlTypeNone"
| "ControlValue_type (ValueBool b) = ControlTypeBool"
| "ControlValue_type (ValueByte w) = ControlTypeByte"
| "ControlValue_type (ValueInteger32 w) = ControlTypeInteger32"
| "ControlValue_type (ValueInteger64 w) = ControlTypeInteger64"
| "ControlValue_type (ValueFloat x) = ControlTypeFloat"
| "ControlValue_type (ValueString s) = ControlTypeString"

text \<open>
  A value stored under the numeric id \<open>k\<close> is typed when the camera has a control
  with that id for which the value is empty or of the declared type. \<open>typed_list\<close>
  and \<open>typed_table\<close> say the same of a control list and of the frame table, with
  respect to the map from names to controls.
\<close>

definition typed_value :: "ControlId list \<Rightarrow> 32 word \<Rightarrow> 'f ControlValue \<Rightarrow> bool" where
  "typed_value camera_controls k v =
     list_ex (\<lambda>i. id_m i = k \<and> (v = ControlValueNone \<or> ControlValue_type v = type_m i))
       camera_controls"

definition typed_list :: "(string \<rightharpoonup> ControlId) \<Rightarrow> 'f ControlList \<Rightarrow> bool" where
  "typed_list cat cl =
     (\<forall>k v. cl k = Some v \<longrightarrow>
        (\<exists>n i. cat n = Some i \<and> id_m i = k \<and>
               (v = ControlValueNone \<or> ControlValue_type v = type_m i)))"

definition typed_table :: "(string \<rightharpoonup> ControlId) \<Rightarrow> (32 word \<rightharpoonup> 'f ControlList) \<Rightarrow> bool" where
  "typed_table cat tbl = (\<forall>f cl. tbl f = Some cl \<longrightarrow> typed_list cat cl)"

text \<open>
  Decimal literals: an optional sign and at least one decimal digit. \<open>literal_value\<close>
  is the number that the literal denotes, by the place value of its digits; a text is
  \<open>non_numeric\<close> when it holds no decimal digit.
\<close>

fun decimal_value :: "string \<Rightarrow> int" where
  "decimal_value [] = 0"
| "decimal_value (c # cs) = digit_value c * 10 ^ length cs + decimal_value cs"

definition decimal_literal :: "string \<Rightarrow> bool" where
  "decimal_literal s =
     (case s of
        [] \<Rightarrow> False
      | c # ds \<Rightarrow> if c = CHR ''-'' \<or> c = CHR ''+'' then ds \<noteq> [] \<and> list_all isdigit ds
                  else list_all isdigit s)"

definition literal_value :: "string \<Rightarrow> int" where
  "literal_value s =
     (case s of
        [] \<Rightarrow> 0
      | c # ds \<Rightarrow> if c = CHR ''-'' then - decimal_value ds
                  else if c = CHR ''+'' then decimal_value ds
                  else decimal_value s)"

definition non_numeric :: "string \<Rightarrow> bool" where
  "non_numeric s = list_all (\<lambda>c. \<not> isdigit c) s"

text \<open>
  The shape of a script. An event of the source matches a shape when it has the type of
  the shape and, where the shape gives a text, that scalar text; \<open>match_shape\<close> reads a
  list of shapes off the front of the events and returns the events that remain.
  A control entry is a name and a value text, a frame entry a frame index text and its
  control entries, a section the frame entries of one \<open>frames\<close> sequence, and
  \<open>script_shape\<close> is the sequence of events of a script with the given sections, up to
  the end of the top-level mapping.
\<close>

type_synonym event_shape = "yaml_event_type \<times> string option"

definition event_matches :: "yaml_event option \<Rightarrow> event_shape \<Rightarrow> bool" where
  "event_matches e k =
     (case e of
        None \<Rightarrow> False
      | Some ev \<Rightarrow> event_type ev = fst k \<and>
                   (case snd k of None \<Rightarrow> True | Some s \<Rightarrow> data_scalar ev = s))"

fun match_shape :: "yaml_event option list \<Rightarrow> event_shape list \<Rightarrow> yaml_event option list option" where
  "match_shape evs [] = Some evs"
| "match_shape [] (k # ks) = None"
| "match_shape (e # evs) (k # ks) = (if event_matches e k then match_shape evs ks else None)"

definition scalar_shape :: "string \<Rightarrow> event_shape" where
  "scalar_shape s = (YAML_SCALAR_EVENT, Some s)"

definition plain_shape :: "yaml_event_type \<Rightarrow> event_shape" where
  "plain_shape t = (t, None)"

type_synonym control_entry = "string \<times> string"
type_synonym frame_entry = "string \<times> control_entry list"

definition control_shape :: "control_entry \<Rightarrow> event_shape list" where
  "control_shape c = [scalar_shape (fst c), scalar_shape (snd c)]"

definition frame_shape :: "frame_entry \<Rightarrow> event_shape list" where
  "frame_shape f =
     [plain_shape YAML_MAPPING_START_EVENT, scalar_shape (fst f),
      plain_shape YAML_MAPPING_START_EVENT] @
     concat (map control_shape (snd f)) @
     [plain_shape YAML_MAPPING_END_EVENT, plain_shape YAML_MAPPING_END_EVENT]"

definition frames_shape :: "frame_entry list \<Rightarrow> event_shape list" where
  "frames_shape fs =
     [scalar_shape ''frames'', plain_shape YAML_SEQUENCE_START_EVENT] @
     concat (map frame_shape fs) @
     [plain_shape YAML_SEQUENCE_END_EVENT]"

definition script_shape :: "frame_entry list list \<Rightarrow> event_shape list" where
  "script_shape secs =
     [plain_shape YAML_STREAM_START_EVENT, plain_shape YAML_DOCUMENT_START_EVENT,
      plain_shape YAML_MAPPING_START_EVENT] @
     concat (map frames_shape secs) @
     [plain_shape YAML_MAPPING_END_EVENT]"

text \<open>
  A frame entry is plain when its index text is not empty and every control entry has a
  name of the camera, and neither its name nor its value text is empty. \<open>set_control\<close>
  and \<open>store_frame\<close> are the effect of one control entry on a control list and of one
  frame entry on the frame table; \<open>camera_names\<close> is the map from names to controls that
  the constructor builds.
\<close>

definition known_control :: "(string \<rightharpoonup> ControlId) \<Rightarrow> control_entry \<Rightarrow> bool" where
  "known_control cat c = (fst c \<noteq> [] \<and> snd c \<noteq> [] \<and> cat (fst c) \<noteq> None)"

definition plain_frame :: "(string \<rightharpoonup> ControlId) \<Rightarrow> frame_entry \<Rightarrow> bool" where
  "plain_frame cat f = (fst f \<noteq> [] \<and> list_all (known_control cat) (snd f))"

definition set_control ::
  "(string \<Rightarrow> 'f) \<Rightarrow> (string \<rightharpoonup> ControlId) \<Rightarrow> 'f ControlList \<Rightarrow> control_entry \<Rightarrow> 'f ControlList" where
  "set_control strtof cat controls c =
     (case cat (fst c) of
        None \<Rightarrow> controls
      | Some i \<Rightarrow> controls(id_m i \<mapsto> fst (unpackControl strtof i (snd c))))"

definition store_frame ::
  "(string \<Rightarrow> 'f) \<Rightarrow> (string \<rightharpoonup> ControlId) \<Rightarrow> (32 word \<rightharpoonup> 'f ControlList) \<Rightarrow> frame_entry
     \<Rightarrow> (32 word \<rightharpoonup> 'f ControlList)" where
  "store_frame strtof cat tbl f =
     tbl(atoi (fst f) \<mapsto> foldl (set_control strtof cat) Map.empty (snd f))"

definition camera_names :: "ControlId list \<Rightarrow> (string \<rightharpoonup> ControlId)" where
  "camera_names cs = foldl (\<lambda>m control. m(name_m control \<mapsto> control)) Map.empty cs"

text \<open>
  The value of a finite float, times \<open>2 ^ 149\<close>, which is an integer. A text is a
  \<open>special_float_text\<close> when, after white space and an optional sign, it begins with
  \<open>inf\<close> or \<open>nan\<close> in any letter case.
\<close>

fun float32_scaled :: "float32 \<Rightarrow> int option" where
  "float32_scaled (Finite neg m e) =
     Some ((if neg then - 1 else 1) * int m * 2 ^ nat (e + 149))"
| "float32_scaled (Infinity neg) = None"
| "float32_scaled (NaN neg) = None"

definition special_float_text :: "string \<Rightarrow> bool" where
  "special_float_text t =
     (case strto_sign (dropWhile isspace (c_str t)) of
        (neg, r) \<Rightarrow>
          map tolower (take 3 r) = ''inf'' \<or> map tolower (take 3 r) = ''nan'')"

text \<open>
  Decimal floating literals, given by their parts: a sign text (empty, \<open>+\<close> or \<open>-\<close>),
  the digits before the point, the digits after the point when there is a point, and
  an exponent when there is one (the letter \<open>e\<close> or \<open>E\<close>, a sign text and at least one
  digit); there is at least one digit before or after the point. \<open>float_text\<close> is the
  text of the literal. The literal denotes the number \<open>n * 10 ^ e\<close>, with the sign of
  its sign text, where \<open>n\<close> is the decimal value of the digits before and after the
  point and \<open>e\<close> the value of the exponent less the number of digits after the point;
  \<open>float_literal_scaled\<close> holds of the integer \<open>v\<close> when \<open>v\<close> is that number times
  \<open>2 ^ 149\<close>.
\<close>

definition sign_text :: "string \<Rightarrow> bool" where
  "sign_text sg = (sg = [] \<or> sg = ''+'' \<or> sg = ''-'')"

type_synonym exponent_part = "char \<times> string \<times> string"

definition float_literal ::
  "string \<Rightarrow> string \<Rightarrow> string option \<Rightarrow> exponent_part option \<Rightarrow> bool" where
  "float_literal sg ip fp ex =
     (sign_text sg \<and> list_all isdigit ip \<and>
      (case fp of
         None \<Rightarrow> ip \<noteq> []
       | Some fd \<Rightarrow> list_all isdigit fd \<and> (ip \<noteq> [] \<or> fd \<noteq> [])) \<and>
      (case ex of
         None \<Rightarrow> True
       | Some (c, es, ed) \<Rightarrow>
           (c = CHR ''e'' \<or> c = CHR ''E'') \<and> sign_text es \<and> ed \<noteq> [] \<and> list_all isdigit ed))"

definition fraction_text :: "string option \<Rightarrow> string" where
  "fraction_text fp = (case fp of None \<Rightarrow> [] | Some fd \<Rightarrow> CHR ''.'' # fd)"

definition exponent_text :: "exponent_part option \<Rightarrow> string" where
  "exponent_text ex = (case ex of None \<Rightarrow> [] | Some (c, es, ed) \<Rightarrow> c # es @ ed)"

definition float_text ::
  "string \<Rightarrow> string \<Rightarrow> string option \<Rightarrow> exponent_part option \<Rightarrow> string" where
  "float_text sg ip fp ex = sg @ ip @ fraction_text fp @ exponent_text ex"

definition fraction_digits :: "string option \<Rightarrow> string" where
  "fraction_digits fp = (case fp of None \<Rightarrow> [] | Some fd \<Rightarrow> fd)"

definition exponent_value :: "exponent_part option \<Rightarrow> int" where
  "exponent_value ex =
     (case ex of
        None \<Rightarrow> 0
      | Some (c, es, ed) \<Rightarrow> if es = ''-'' then - decimal_value ed else decimal_value ed)"

definition float_literal_scaled ::
  "string \<Rightarrow> string \<Rightarrow> string option \<Rightarrow> exponent_part option \<Rightarrow> int \<Rightarrow> bool" where
  "float_literal_scaled sg ip fp ex v =
     (let n = decimal_value (ip @ fraction_digits fp);
          e = exponent_value ex - int (length (fraction_digits fp))
      in v * 10 ^ nat (- e) = (if sg = ''-'' then - n else n) * 10 ^ nat e * 2 ^ 149)"

text \<open>
  \<open>ge_pow2 num den k\<close>: the power \<open>2 ^ k\<close> is not above the fraction \<open>num / den\<close>.
\<close>

definition ge_pow2 :: "nat \<Rightarrow> nat \<Rightarrow> int \<Rightarrow> bool" where
  "ge_pow2 num den k = (den * 2 ^ nat k \<le> num * 2 ^ nat (- k))"

section \<open>Concrete inputs\<close>

text \<open>
  Events as libyaml delivers them for a given text: a scalar with its text, and an
  event of another type, whose scalar member reads as the empty string.
\<close>

definition scalar_event :: "string \<Rightarrow> yaml_event" where
  "scalar_event s = \<lparr>event_type = YAML_SCALAR_EVENT, start_mark = (0, 0), data_scalar = s\<rparr>"

definition plain_event :: "yaml_event_type \<Rightarrow> yaml_event" where
  "plain_event t = \<lparr>event_type = t, start_mark = (0, 0), data_scalar = []\<rparr>"

text \<open>A camera with the controls \<open>brightness\<close> (a byte) and \<open>awb\<close> (a bool).\<close>

definition brightness :: ControlId where
  "brightness = \<lparr>id_m = 1, name_m = ''brightness'', type_m = ControlTypeByte\<rparr>"

definition awb :: ControlId where
  "awb = \<lparr>id_m = 2, name_m = ''awb'', type_m = ControlTypeBool\<rparr>"

definition example_camera :: "ControlId list" where
  "example_camera = [brightness, awb]"

text \<open>The events of the script \<^verbatim>\<open>{frames: [{0: {brightness: "128"}}, {5: {awb: "true"}}]}\<close>.\<close>

definition example_script :: "yaml_event option list" where
  "example_script = map Some
     [plain_event YAML_STREAM_START_EVENT, plain_event YAML_DOCUMENT_START_EVENT,
      plain_event YAML_MAPPING_START_EVENT,
        scalar_event ''frames'', plain_event YAML_SEQUENCE_START_EVENT,
          plain_event YAML_MAPPING_START_EVENT, scalar_event ''0'',
            plain_event YAML_MAPPING_START_EVENT,
              scalar_event ''brightness'', scalar_event ''128'',
            plain_event YAML_MAPPING_END_EVENT,
          plain_event YAML_MAPPING_END_EVENT,
          plain_event YAML_MAPPING_START_EVENT, scalar_event ''5'',
            plain_event YAML_MAPPING_START_EVENT,
              scalar_event ''awb'', scalar_event ''true'',
            plain_event YAML_MAPPING_END_EVENT,
          plain_event YAML_MAPPING_END_EVENT,
        plain_event YAML_SEQUENCE_END_EVENT,
      plain_event YAML_MAPPING_END_EVENT,
      plain_event YAML_DOCUMENT_END_EVENT, plain_event YAML_STREAM_END_EVENT]"

definition example_object :: "unit CaptureScript" where
  "example_object =
     CaptureScript_ctor (\<lambda>s. ()) example_camera ''example.yaml'' (Some example_script) True"

text \<open>
  The object after the constructor has filled in \<open>controls_\<close> for that camera, with the
  events \<open>script\<close> still to be read.
\<close>

definition example_this :: "yaml_event list \<Rightarrow> unit CaptureScript" where
  "example_this script =
     \<lparr>controls_m = [''brightness'' \<mapsto> brightness, ''awb'' \<mapsto> awb],
      frameControls_m = Map.empty, parser_m = map Some script, valid_m = False, cerr = []\<rparr>"

text \<open>Controls of the other types.\<close>

definition int32_control :: ControlId where
  "int32_control = \<lparr>id_m = 3, name_m = ''gain'', type_m = ControlTypeInteger32\<rparr>"

definition crop :: ControlId where
  "crop = \<lparr>id_m = 4, name_m = ''crop'', type_m = ControlTypeRectangle\<rparr>"

definition exposure :: ControlId where
  "exposure = \<lparr>id_m = 6, name_m = ''exposure'', type_m = ControlTypeInteger64\<rparr>"

definition lens :: ControlId where
  "lens = \<lparr>id_m = 7, name_m = ''lens'', type_m = ControlTypeFloat\<rparr>"

text \<open>
  The events of \<^verbatim>\<open>frames: [{1: {brightness: 128}}, {0: {foo: frames}}]\<close>, a script
  with a control that the camera does not have.
\<close>

definition unknown_control_script :: "yaml_event option list" where
  "unknown_control_script = map Some
     [plain_event YAML_STREAM_START_EVENT, plain_event YAML_DOCUMENT_START_EVENT,
      plain_event YAML_MAPPING_START_EVENT,
        scalar_event ''frames'', plain_event YAML_SEQUENCE_START_EVENT,
          plain_event YAML_MAPPING_START_EVENT, scalar_event ''1'',
            plain_event YAML_MAPPING_START_EVENT,
              scalar_event ''brightness'', scalar_event ''128'',
            plain_event YAML_MAPPING_END_EVENT,
          plain_event YAML_MAPPING_END_EVENT,
          plain_event YAML_MAPPING_START_EVENT, scalar_event ''0'',
            plain_event YAML_MAPPING_START_EVENT,
              scalar_event ''foo'', scalar_event ''frames'',
            plain_event YAML_MAPPING_END_EVENT,
          plain_event YAML_MAPPING_END_EVENT,
        plain_event YAML_SEQUENCE_END_EVENT,
      plain_event YAML_MAPPING_END_EVENT,
      plain_event YAML_DOCUMENT_END_EVENT, plain_event YAML_STREAM_END_EVENT]"

text \<open>
  The events of \<^verbatim>\<open>{frames: {}, shots: 1}\<close>, a script with a second section.
\<close>

definition other_section_script :: "yaml_event option list" where
  "other_section_script = map Some
     [plain_event YAML_STREAM_START_EVENT, plain_event YAML_DOCUMENT_START_EVENT,
      plain_event YAML_MAPPING_START_EVENT,
        scalar_event ''frames'',
          plain_event YAML_MAPPING_START_EVENT, plain_event YAML_MAPPING_END_EVENT,
        scalar_event ''shots'', scalar_event ''1'',
      plain_event YAML_MAPPING_END_EVENT,
      plain_event YAML_DOCUMENT_END_EVENT, plain_event YAML_STREAM_END_EVENT]"

text \<open>
  A script with two \<open>frames\<close> sections,
  \<^verbatim>\<open>frames: [{0: {brightness: 1}}, {2: {awb: true}}]\<close> and
  \<^verbatim>\<open>frames: [{0: {awb: false}}]\<close>, and its events.
\<close>

definition two_sections :: "frame_entry list list" where
  "two_sections =
     [[(''0'', [(''brightness'', ''1'')]), (''2'', [(''awb'', ''true'')])],
      [(''0'', [(''awb'', ''false'')])]]"

definition two_sections_script :: "yaml_event option list" where
  "two_sections_script = map Some
     [plain_event YAML_STREAM_START_EVENT, plain_event YAML_DOCUMENT_START_EVENT,
      plain_event YAML_MAPPING_START_EVENT,
        scalar_event ''frames'', plain_event YAML_SEQUENCE_START_EVENT,
          plain_event YAML_MAPPING_START_EVENT, scalar_event ''0'',
            plain_event YAML_MAPPING_START_EVENT,
              scalar_event ''brightness'', scalar_event ''1'',
            plain_event YAML_MAPPING_END_EVENT,
          plain_event YAML_MAPPING_END_EVENT,
          plain_event YAML_MAPPING_START_EVENT, scalar_event ''2'',
            plain_event YAML_MAPPING_START_EVENT,
              scalar_event ''awb'', scalar_event ''true'',
            plain_event YAML_MAPPING_END_EVENT,
          plain_event YAML_MAPPING_END_EVENT,
        plain_event YAML_SEQUENCE_END_EVENT,
        scalar_event ''frames'', plain_event YAML_SEQUENCE_START_EVENT,
          plain_event YAML_MAPPING_START_EVENT, scalar_event ''0'',
            plain_event YAML_MAPPING_START_EVENT,
              scalar_event ''awb'', scalar_event ''false'',
            plain_event YAML_MAPPING_END_EVENT,
          plain_event YAML_MAPPING_END_EVENT,
        plain_event YAML_SEQUENCE_END_EVENT,
      plain_event YAML_MAPPING_END_EVENT,
      plain_event YAML_DOCUMENT_END_EVENT, plain_event YAML_STREAM_END_EVENT]"


section \<open>Evaluation and step lemmas\<close>

lemmas eval_defs =
  parseFrame_controls.simps parseFrames_loop.simps parseScript_loop.simps
  CaptureScript_ctor_def parseScript_def parseFrames_def parseFrame_def parseControl_def
  parseScalar_def nextEvent_def checkEvent_def eventScalarValue_def unpackControl_def
  unpackFailure_def ControlList_set_def atoi_def strtol_def strtoll_def strto_range_def
  strto_sign_def strto_digits_def digit_value_def isdigit_def isspace_def c_str_def
  LONG_MIN_def LONG_MAX_def LLONG_MIN_def LLONG_MAX_def EINVAL_def Let_def
  scalar_event_def plain_event_def

lemmas example_defs =
  example_object_def example_script_def example_camera_def example_this_def
  brightness_def awb_def

lemma foldl_digits:
  "foldl (\<lambda>acc c. 10 * acc + digit_value c) a ds = a * 10 ^ length ds + decimal_value ds"
  by (induction ds arbitrary: a) (simp_all add: algebra_simps)

lemma strto_digits_decimal_value: "strto_digits ds = decimal_value ds"
  by (simp add: strto_digits_def foldl_digits)

lemma takeWhile_all: "list_all P xs \<Longrightarrow> takeWhile P xs = xs"
  by (induction xs) simp_all

lemma isdigit_not_NUL: "isdigit c \<Longrightarrow> c \<noteq> CHR 0x00"
  by (auto simp: isdigit_def)

lemma isdigit_not_space: "isdigit c \<Longrightarrow> \<not> isspace c"
  by (auto simp: isdigit_def isspace_def)

lemma isdigit_not_sign: "isdigit c \<Longrightarrow> c \<noteq> CHR ''-'' \<and> c \<noteq> CHR ''+''"
  by (auto simp: isdigit_def)

lemma c_str_digits: "list_all isdigit ds \<Longrightarrow> c_str ds = ds"
  unfolding c_str_def by (rule takeWhile_all) (auto simp: list_all_iff dest: isdigit_not_NUL)

lemma c_str_Cons: "c \<noteq> CHR 0x00 \<Longrightarrow> c_str (c # ds) = c # c_str ds"
  by (simp add: c_str_def)

lemma strto_range_signed:
  assumes "c = CHR ''-'' \<or> c = CHR ''+''" and "list_all isdigit ds"
  shows "strto_range lo hi (c # ds) =
           max lo (min hi (if c = CHR ''-'' then - decimal_value ds else decimal_value ds))"
proof -
  have cs: "c_str (c # ds) = c # ds"
    using assms c_str_digits [OF assms(2)] by (auto simp: c_str_Cons)
  have sp: "\<not> isspace c"
    using assms(1) by (auto simp: isspace_def)
  have dw: "dropWhile isspace (c # ds) = c # ds"
    using sp by simp
  have sg: "strto_sign (c # ds) = (c = CHR ''-'', ds)"
    using assms(1) by (auto simp: strto_sign_def)
  have tw: "takeWhile isdigit ds = ds"
    using assms(2) by (rule takeWhile_all)
  show ?thesis
    unfolding strto_range_def cs dw sg
    by (simp add: tw strto_digits_decimal_value Let_def)
qed

lemma strto_range_unsigned:
  assumes "list_all isdigit (c # ds)"
  shows "strto_range lo hi (c # ds) = max lo (min hi (decimal_value (c # ds)))"
proof -
  have c: "isdigit c" using assms by simp
  have cs: "c_str (c # ds) = c # ds"
    using assms by (rule c_str_digits)
  have dw: "dropWhile isspace (c # ds) = c # ds"
    using isdigit_not_space [OF c] by simp
  have sg: "strto_sign (c # ds) = (False, c # ds)"
    using isdigit_not_sign [OF c] by (simp add: strto_sign_def)
  have tw: "takeWhile isdigit (c # ds) = c # ds"
    using assms by (rule takeWhile_all)
  show ?thesis
    unfolding strto_range_def cs dw sg
    by (simp only: tw strto_digits_decimal_value Let_def prod.case if_False)
qed

lemma strto_range_literal:
  assumes "decimal_literal s"
  shows "strto_range lo hi s = max lo (min hi (literal_value s))"
proof -
  from assms obtain c ds where s: "s = c # ds"
    by (cases s) (simp_all add: decimal_literal_def)
  show ?thesis
  proof (cases "c = CHR ''-'' \<or> c = CHR ''+''")
    case True
    with assms s have ds: "list_all isdigit ds"
      by (simp add: decimal_literal_def)
    show ?thesis
      using strto_range_signed [OF True ds, of lo hi] True
      by (auto simp: s literal_value_def)
  next
    case False
    with assms s have all: "list_all isdigit (c # ds)"
      by (simp add: decimal_literal_def)
    show ?thesis
      using strto_range_unsigned [OF all, of lo hi] False
      by (simp add: s literal_value_def)
  qed
qed

lemma non_numeric_takeWhile:
  assumes "list_all (\<lambda>c. \<not> isdigit c) r"
  shows "takeWhile isdigit r = []"
  using assms by (cases r) simp_all

lemma strto_sign_subset: "set (snd (strto_sign r)) \<subseteq> set r"
  by (auto simp: strto_sign_def split: list.splits)

lemma strto_range_non_numeric:
  assumes "non_numeric s"
  shows "strto_range lo hi s = max lo (min hi 0)"
proof -
  obtain neg r where sg: "strto_sign (dropWhile isspace (c_str s)) = (neg, r)"
    by (cases "strto_sign (dropWhile isspace (c_str s))")
  have a: "set (c_str s) \<subseteq> set s"
    unfolding c_str_def by (auto dest: set_takeWhileD)
  have b: "set (dropWhile isspace (c_str s)) \<subseteq> set (c_str s)"
    by (auto dest: set_dropWhileD)
  have c: "set r \<subseteq> set (dropWhile isspace (c_str s))"
    using strto_sign_subset [of "dropWhile isspace (c_str s)"] sg by simp
  from a b c have "set r \<subseteq> set s" by blast
  with assms have "list_all (\<lambda>c. \<not> isdigit c) r"
    unfolding non_numeric_def list_all_iff by blast
  then have tw: "takeWhile isdigit r = []" by (rule non_numeric_takeWhile)
  show ?thesis
    unfolding strto_range_def sg by (simp add: tw strto_digits_def)
qed

lemma strtol_non_numeric: "non_numeric s \<Longrightarrow> strtol s = 0"
  by (simp add: strtol_def strto_range_non_numeric LONG_MIN_def LONG_MAX_def)

lemma strtoll_non_numeric: "non_numeric s \<Longrightarrow> strtoll s = 0"
  by (simp add: strtoll_def strto_range_non_numeric LLONG_MIN_def LLONG_MAX_def)

lemma atoi_non_numeric: "non_numeric s \<Longrightarrow> atoi s = 0"
  by (simp add: atoi_def strtol_non_numeric)

lemma unpackControl_type:
  "fst (unpackControl strtof i repr) = ControlValueNone \<or>
   ControlValue_type (fst (unpackControl strtof i repr)) = type_m i"
  by (cases "type_m i") (simp_all add: unpackControl_def)

lemma nextEvent_head_any:
  "parser_m st = Some e # rest \<Longrightarrow>
     nextEvent YAML_NO_EVENT st = (Some e, st\<lparr>parser_m := rest\<rparr>)"
  by (simp add: nextEvent_def)

lemma nextEvent_head_expect:
  "parser_m st = Some e # rest \<Longrightarrow> event_type e = t \<Longrightarrow>
     nextEvent t st = (Some e, st\<lparr>parser_m := rest\<rparr>)"
  by (simp add: nextEvent_def checkEvent_def Let_def)

lemma nextEvent_head_mismatch:
  "parser_m st = Some e # rest \<Longrightarrow> event_type e \<noteq> t \<Longrightarrow> t \<noteq> YAML_NO_EVENT \<Longrightarrow>
     nextEvent t st =
       (None, st\<lparr>parser_m := rest,
                 cerr := cerr st @ [ExpectedEvent (start_mark e) (eventTypeName t)
                                      (eventTypeName (event_type e))]\<rparr>)"
  by (simp add: nextEvent_def checkEvent_def)

lemma parseScalar_head:
  assumes "parser_m st = Some vev # rest" and "event_type vev = YAML_SCALAR_EVENT"
  shows "parseScalar st = (data_scalar vev, st\<lparr>parser_m := rest\<rparr>)"
  using assms by (simp add: parseScalar_def nextEvent_head_expect eventScalarValue_def)

lemma parseControl_decodes:
  assumes "data_scalar ev \<noteq> []" and "controls_m st (data_scalar ev) = Some i"
    and "parser_m st = Some vev # rest" and "event_type vev = YAML_SCALAR_EVENT"
    and "data_scalar vev \<noteq> []"
  shows "parseControl strtof ev controls st =
     (0, controls(id_m i \<mapsto> fst (unpackControl strtof i (data_scalar vev))),
      st\<lparr>parser_m := rest, cerr := cerr st @ snd (unpackControl strtof i (data_scalar vev))\<rparr>)"
  using assms
  by (simp add: parseControl_def eventScalarValue_def parseScalar_head ControlList_set_def
        split: prod.splits)

lemma parseControl_empty_name:
  "data_scalar ev = [] \<Longrightarrow> parseControl strtof ev controls st = (- EINVAL, controls, st)"
  by (simp add: parseControl_def eventScalarValue_def)

lemma parseControl_empty_value:
  assumes "data_scalar ev \<noteq> []" and "controls_m st (data_scalar ev) = Some i"
    and "parser_m st = Some vev # rest" and "event_type vev = YAML_SCALAR_EVENT"
    and "data_scalar vev = []"
  shows "parseControl strtof ev controls st = (- EINVAL, controls, st\<lparr>parser_m := rest\<rparr>)"
  using assms
  by (simp add: parseControl_def eventScalarValue_def parseScalar_head)

lemma checkEvent_ok: "event_type ev = t \<Longrightarrow> checkEvent ev t st = (True, st)"
  by (simp add: checkEvent_def)

lemma parseFrame_empty_key:
  assumes "event_type ev = YAML_MAPPING_START_EVENT"
    and "parser_m st = Some kev # rest" and "event_type kev = YAML_SCALAR_EVENT"
    and "data_scalar kev = []"
  shows "parseFrame strtof ev st = (- EINVAL, st\<lparr>parser_m := rest\<rparr>)"
  using assms by (simp add: parseFrame_def checkEvent_ok parseScalar_head)

lemma parseFrame_controls_end:
  assumes "parser_m st = Some e # rest" and "event_type e = YAML_MAPPING_END_EVENT"
  shows "parseFrame_controls strtof controls st = (0, controls, st\<lparr>parser_m := rest\<rparr>)"
  using assms
  by (simp add: parseFrame_controls.simps [of strtof controls st] nextEvent_head_any)

lemma parseFrame_no_controls:
  assumes "event_type ev = YAML_MAPPING_START_EVENT"
    and "parser_m st = Some kev # Some e2 # Some e3 # Some e4 # rest"
    and "event_type kev = YAML_SCALAR_EVENT" and "data_scalar kev \<noteq> []"
    and "event_type e2 = YAML_MAPPING_START_EVENT"
    and "event_type e3 = YAML_MAPPING_END_EVENT"
    and "event_type e4 = YAML_MAPPING_END_EVENT"
  shows "parseFrame strtof ev st =
           (0, st\<lparr>parser_m := rest,
                  frameControls_m := (frameControls_m st)(atoi (data_scalar kev) \<mapsto> Map.empty)\<rparr>)"
proof -
  let ?s1 = "st\<lparr>parser_m := Some e2 # Some e3 # Some e4 # rest\<rparr>"
  let ?s2 = "st\<lparr>parser_m := Some e3 # Some e4 # rest\<rparr>"
  let ?s3 = "st\<lparr>parser_m := Some e4 # rest\<rparr>"
  let ?s4 = "st\<lparr>parser_m := Some e4 # rest, frameControls_m :=
                (frameControls_m st)(atoi (data_scalar kev) \<mapsto> Map.empty)\<rparr>"
  have a: "parseScalar st = (data_scalar kev, ?s1)"
    using assms(2,3) by (rule parseScalar_head)
  have b: "nextEvent YAML_MAPPING_START_EVENT ?s1 = (Some e2, ?s2)"
    using assms(5) nextEvent_head_expect [of ?s1 e2 "Some e3 # Some e4 # rest"] by simp
  have c: "parseFrame_controls strtof Map.empty ?s2 = (0, Map.empty, ?s3)"
    using assms(6) parseFrame_controls_end [of ?s2 e3 "Some e4 # rest"] by simp
  have d: "nextEvent YAML_MAPPING_END_EVENT ?s4 = (Some e4, st\<lparr>parser_m := rest, frameControls_m :=
                (frameControls_m st)(atoi (data_scalar kev) \<mapsto> Map.empty)\<rparr>)"
    using assms(7) nextEvent_head_expect [of ?s4 e4 rest] by simp
  show ?thesis
    using assms(4) by (simp add: parseFrame_def checkEvent_ok [OF assms(1)] a b c d Let_def)
qed

lemma unpackControl_Bool:
  assumes "type_m i = ControlTypeBool"
  shows "unpackControl strtof i repr =
     (if repr = ''true'' then (ValueBool True, [])
      else if repr = ''false'' then (ValueBool False, [])
      else (ControlValueNone, [UnsupportedRepr repr ''bool'' (name_m i)]))"
  using assms by (simp add: unpackControl_def unpackFailure_def)

lemma checkEvent_fields:
  "checkEvent ev t st = (ok, st1) \<Longrightarrow>
     controls_m st1 = controls_m st \<and> frameControls_m st1 = frameControls_m st"
  by (auto simp: checkEvent_def split: if_splits)

lemma nextEvent_fields:
  "nextEvent t st = (r, st1) \<Longrightarrow>
     controls_m st1 = controls_m st \<and> frameControls_m st1 = frameControls_m st"
  by (auto simp: nextEvent_def checkEvent_def Let_def split: list.splits option.splits if_splits)

lemma parseScalar_fields:
  "parseScalar st = (s, st1) \<Longrightarrow>
     controls_m st1 = controls_m st \<and> frameControls_m st1 = frameControls_m st"
  by (auto simp: parseScalar_def split: prod.splits option.splits dest: nextEvent_fields)

lemma typed_list_upd:
  assumes "typed_list cat cl" and "cat n = Some i"
    and "v = ControlValueNone \<or> ControlValue_type v = type_m i"
  shows "typed_list cat (cl(id_m i \<mapsto> v))"
proof -
  have "\<exists>n j. cat n = Some j \<and> id_m j = k \<and>
               (w = ControlValueNone \<or> ControlValue_type w = type_m j)"
    if "(cl(id_m i \<mapsto> v)) k = Some w" for k w
  proof (cases "k = id_m i")
    case True
    with that have "w = v" by simp
    with assms(2,3) True show ?thesis by blast
  next
    case False
    with that have "cl k = Some w" by simp
    with assms(1) show ?thesis unfolding typed_list_def by blast
  qed
  then show ?thesis unfolding typed_list_def by blast
qed

lemma parseControl_fields:
  assumes "parseControl strtof ev controls st = (ret, controls1, st1)"
  shows "controls_m st1 = controls_m st \<and> frameControls_m st1 = frameControls_m st \<and>
         (typed_list (controls_m st) controls \<longrightarrow> typed_list (controls_m st) controls1)"
proof (cases "data_scalar ev = []")
  case True
  with assms show ?thesis by (simp add: parseControl_empty_name)
next
  case ne: False
  show ?thesis
  proof (cases "controls_m st (data_scalar ev)")
    case None
    with assms ne show ?thesis
      by (auto simp: parseControl_def eventScalarValue_def)
  next
    case (Some i)
    obtain s sa where ps: "parseScalar st = (s, sa)" by (cases "parseScalar st")
    note f = parseScalar_fields [OF ps]
    show ?thesis
    proof (cases "s = []")
      case True
      with assms ne Some ps f show ?thesis
        by (simp add: parseControl_def eventScalarValue_def)
    next
      case False
      obtain v m where u: "unpackControl strtof i s = (v, m)"
        by (cases "unpackControl strtof i s")
      have ty: "v = ControlValueNone \<or> ControlValue_type v = type_m i"
        using unpackControl_type [of strtof i s] u by simp
      have c1: "controls1 = controls(id_m i \<mapsto> v)" and s1: "st1 = sa\<lparr>cerr := cerr sa @ m\<rparr>"
        using assms ne Some ps False u
        by (simp_all add: parseControl_def eventScalarValue_def ControlList_set_def)
      have "typed_list (controls_m st) (controls(id_m i \<mapsto> v))"
        if "typed_list (controls_m st) controls"
        using that Some ty by (rule typed_list_upd)
      moreover have "controls_m st1 = controls_m st \<and> frameControls_m st1 = frameControls_m st"
        using f by (simp add: s1)
      ultimately show ?thesis
        unfolding c1 by blast
    qed
  qed
qed

lemma parseFrame_controls_fields:
  "parseFrame_controls strtof controls st = (ret, controls1, st1) \<Longrightarrow>
     controls_m st1 = controls_m st \<and> frameControls_m st1 = frameControls_m st \<and>
     (typed_list (controls_m st) controls \<longrightarrow> typed_list (controls_m st) controls1)"
proof (induction strtof controls st arbitrary: ret controls1 st1 rule: parseFrame_controls.induct)
  case (1 strtof controls st)
  obtain r sa where ne: "nextEvent YAML_NO_EVENT st = (r, sa)"
    by (cases "nextEvent YAML_NO_EVENT st")
  note f = nextEvent_fields [OF ne]
  show ?case
  proof (cases r)
    case None
    with "1.prems" ne f show ?thesis
      by (simp add: parseFrame_controls.simps [of strtof controls st])
  next
    case (Some ev)
    show ?thesis
    proof (cases "event_type ev = YAML_MAPPING_END_EVENT")
      case True
      with "1.prems" ne f Some show ?thesis
        by (simp add: parseFrame_controls.simps [of strtof controls st])
    next
      case False
      obtain rc c2 s2 where pc: "parseControl strtof ev controls sa = (rc, c2, s2)"
        by (cases "parseControl strtof ev controls sa")
      note g = parseControl_fields [OF pc]
      show ?thesis
      proof (cases "rc = 0")
        case True
        have "parseFrame_controls strtof c2 s2 = (ret, controls1, st1)"
          using "1.prems" ne Some False pc True
          by (simp add: parseFrame_controls.simps [of strtof controls st])
        from "1.IH" [OF ne [symmetric] Some False pc [symmetric] refl _ this] True
        have "controls_m st1 = controls_m s2 \<and> frameControls_m st1 = frameControls_m s2 \<and>
              (typed_list (controls_m s2) c2 \<longrightarrow> typed_list (controls_m s2) controls1)"
          by simp
        with f g show ?thesis by simp
      next
        case nz: False
        with "1.prems" ne Some False pc f g show ?thesis
          by (simp add: parseFrame_controls.simps [of strtof controls st])
      qed
    qed
  qed
qed

lemma typed_list_empty: "typed_list cat Map.empty"
  by (simp add: typed_list_def)

lemma typed_table_upd:
  "typed_table cat tbl \<Longrightarrow> typed_list cat cl \<Longrightarrow> typed_table cat (tbl(f \<mapsto> cl))"
  by (simp add: typed_table_def)

lemma parseFrame_fields:
  assumes "parseFrame strtof ev st = (ret, st1)"
  shows "controls_m st1 = controls_m st \<and>
         (typed_table (controls_m st) (frameControls_m st)
            \<longrightarrow> typed_table (controls_m st) (frameControls_m st1))"
proof -
  obtain ok s0 where a: "checkEvent ev YAML_MAPPING_START_EVENT st = (ok, s0)"
    by (cases "checkEvent ev YAML_MAPPING_START_EVENT st")
  obtain key s1 where b: "parseScalar s0 = (key, s1)"
    by (cases "parseScalar s0")
  obtain r s2 where c: "nextEvent YAML_MAPPING_START_EVENT s1 = (r, s2)"
    by (cases "nextEvent YAML_MAPPING_START_EVENT s1")
  obtain rc cl s3 where d: "parseFrame_controls strtof Map.empty s2 = (rc, cl, s3)"
    by (cases "parseFrame_controls strtof Map.empty s2")
  define s4 where "s4 = s3\<lparr>frameControls_m := (frameControls_m s3)(atoi key \<mapsto> cl)\<rparr>"
  obtain r5 s5 where e: "nextEvent YAML_MAPPING_END_EVENT s4 = (r5, s5)"
    by (cases "nextEvent YAML_MAPPING_END_EVENT s4")
  note fa = checkEvent_fields [OF a] and fb = parseScalar_fields [OF b]
    and fc = nextEvent_fields [OF c] and fd = parseFrame_controls_fields [OF d]
    and fe = nextEvent_fields [OF e]
  have cl: "typed_list (controls_m st) cl"
  proof -
    have "controls_m s2 = controls_m st" using fa fb fc by simp
    with fd typed_list_empty [of "controls_m s2"] show ?thesis by metis
  qed
  have f03: "\<forall>s \<in> {s0, s1, s2, s3}. controls_m s = controls_m st \<and>
               frameControls_m s = frameControls_m st"
    using fa fb fc fd by simp
  have f5: "controls_m s5 = controls_m st \<and>
            frameControls_m s5 = (frameControls_m st)(atoi key \<mapsto> cl)"
    using fa fb fc fd fe by (simp add: s4_def)
  have "st1 \<in> {s0, s1, s2, s3, s5}"
    using assms a b c d e
    by (auto simp: parseFrame_def Let_def s4_def split: if_splits option.splits)
  with f03 f5 cl show ?thesis
    by (auto simp: typed_table_upd)
qed

lemma parseFrames_loop_fields:
  "parseFrames_loop strtof st = (ret, st1) \<Longrightarrow>
     controls_m st1 = controls_m st \<and>
     (typed_table (controls_m st) (frameControls_m st)
        \<longrightarrow> typed_table (controls_m st) (frameControls_m st1))"
proof (induction strtof st arbitrary: ret st1 rule: parseFrames_loop.induct)
  case (1 strtof st)
  obtain r sa where ne: "nextEvent YAML_NO_EVENT st = (r, sa)"
    by (cases "nextEvent YAML_NO_EVENT st")
  note f = nextEvent_fields [OF ne]
  show ?case
  proof (cases r)
    case None
    with "1.prems" ne f show ?thesis
      by (simp add: parseFrames_loop.simps [of strtof st])
  next
    case (Some ev)
    show ?thesis
    proof (cases "event_type ev = YAML_SEQUENCE_END_EVENT")
      case True
      with "1.prems" ne f Some show ?thesis
        by (simp add: parseFrames_loop.simps [of strtof st])
    next
      case False
      obtain rc s2 where pf: "parseFrame strtof ev sa = (rc, s2)"
        by (cases "parseFrame strtof ev sa")
      note g = parseFrame_fields [OF pf]
      show ?thesis
      proof (cases "rc = 0")
        case True
        have "parseFrames_loop strtof s2 = (ret, st1)"
          using "1.prems" ne Some False pf True
          by (simp add: parseFrames_loop.simps [of strtof st])
        from "1.IH" [OF ne [symmetric] Some False pf [symmetric] _ this] True
        have "controls_m st1 = controls_m s2 \<and>
              (typed_table (controls_m s2) (frameControls_m s2)
                 \<longrightarrow> typed_table (controls_m s2) (frameControls_m st1))"
          by simp
        with f g show ?thesis by simp
      next
        case nz: False
        with "1.prems" ne Some False pf f g show ?thesis
          by (simp add: parseFrames_loop.simps [of strtof st])
      qed
    qed
  qed
qed

lemma parseFrames_fields:
  assumes "parseFrames strtof st = (ret, st1)"
  shows "controls_m st1 = controls_m st \<and>
     (typed_table (controls_m st) (frameControls_m st)
        \<longrightarrow> typed_table (controls_m st) (frameControls_m st1))"
proof -
  obtain r sa where ne: "nextEvent YAML_SEQUENCE_START_EVENT st = (r, sa)"
    by (cases "nextEvent YAML_SEQUENCE_START_EVENT st")
  note f = nextEvent_fields [OF ne]
  show ?thesis
  proof (cases r)
    case None
    with assms ne f show ?thesis by (simp add: parseFrames_def)
  next
    case (Some ev)
    with assms ne have "parseFrames_loop strtof sa = (ret, st1)"
      by (simp add: parseFrames_def)
    from parseFrames_loop_fields [OF this] f show ?thesis by simp
  qed
qed

lemma parseScript_loop_fields:
  "parseScript_loop strtof st = (ret, st1) \<Longrightarrow>
     controls_m st1 = controls_m st \<and>
     (typed_table (controls_m st) (frameControls_m st)
        \<longrightarrow> typed_table (controls_m st) (frameControls_m st1))"
proof (induction strtof st arbitrary: ret st1 rule: parseScript_loop.induct)
  case (1 strtof st)
  obtain r sa where ne: "nextEvent YAML_NO_EVENT st = (r, sa)"
    by (cases "nextEvent YAML_NO_EVENT st")
  note f = nextEvent_fields [OF ne]
  show ?case
  proof (cases r)
    case None
    with "1.prems" ne f show ?thesis
      by (simp add: parseScript_loop.simps [of strtof st])
  next
    case (Some ev)
    show ?thesis
    proof (cases "event_type ev = YAML_MAPPING_END_EVENT")
      case True
      with "1.prems" ne f Some show ?thesis
        by (simp add: parseScript_loop.simps [of strtof st])
    next
      case False
      obtain ok sb where ce: "checkEvent ev YAML_SCALAR_EVENT sa = (ok, sb)"
        by (cases "checkEvent ev YAML_SCALAR_EVENT sa")
      note g = checkEvent_fields [OF ce]
      show ?thesis
      proof (cases "ok \<and> eventScalarValue ev = ''frames''")
        case True
        obtain rc s3 where pf: "parseFrames strtof sb = (rc, s3)"
          by (cases "parseFrames strtof sb")
        note h = parseFrames_fields [OF pf]
        have "parseScript_loop strtof s3 = (ret, st1)"
          using "1.prems" ne Some False ce True pf
          by (simp add: parseScript_loop.simps [of strtof st])
        from "1.IH" [OF ne [symmetric] Some False ce [symmetric] _ refl _ pf [symmetric] this] True
        have "controls_m st1 = controls_m s3 \<and>
              (typed_table (controls_m s3) (frameControls_m s3)
                 \<longrightarrow> typed_table (controls_m s3) (frameControls_m st1))"
          by simp
        with f g h show ?thesis by simp
      next
        case other: False
        with "1.prems" ne Some False ce f g show ?thesis
          by (auto simp: parseScript_loop.simps [of strtof st] Let_def split: if_splits)
      qed
    qed
  qed
qed

lemma parseScript_fields:
  assumes "parseScript strtof ok script st = (ret, st1)"
  shows "controls_m st1 = controls_m st \<and>
     (typed_table (controls_m st) (frameControls_m st)
        \<longrightarrow> typed_table (controls_m st) (frameControls_m st1))"
proof (cases ok)
  case False
  with assms show ?thesis by (auto simp: parseScript_def)
next
  case True
  define s0 where "s0 = st\<lparr>parser_m := script\<rparr>"
  obtain r1 s1 where a: "nextEvent YAML_STREAM_START_EVENT s0 = (r1, s1)"
    by (cases "nextEvent YAML_STREAM_START_EVENT s0")
  obtain r2 s2 where b: "nextEvent YAML_DOCUMENT_START_EVENT s1 = (r2, s2)"
    by (cases "nextEvent YAML_DOCUMENT_START_EVENT s1")
  obtain r3 s3 where c: "nextEvent YAML_MAPPING_START_EVENT s2 = (r3, s3)"
    by (cases "nextEvent YAML_MAPPING_START_EVENT s2")
  obtain r4 s4 where d: "parseScript_loop strtof s3 = (r4, s4)"
    by (cases "parseScript_loop strtof s3")
  note fa = nextEvent_fields [OF a] and fb = nextEvent_fields [OF b]
    and fc = nextEvent_fields [OF c] and fd = parseScript_loop_fields [OF d]
  have "st1 \<in> {s1, s2, s3, s4}"
    using assms True a b c d
    by (auto simp: parseScript_def Let_def s0_def split: option.splits)
  moreover have "controls_m s0 = controls_m st \<and> frameControls_m s0 = frameControls_m st"
    by (simp add: s0_def)
  ultimately show ?thesis
    using fa fb fc fd by auto
qed

lemma foldl_controls_mem:
  "foldl (\<lambda>m control. m(name_m control \<mapsto> control)) m0 cs n = Some i \<Longrightarrow>
     i \<in> set cs \<or> m0 n = Some i"
proof (induction cs arbitrary: m0)
  case Nil
  then show ?case by simp
next
  case (Cons a cs)
  from Cons.prems have "foldl (\<lambda>m control. m(name_m control \<mapsto> control))
      (m0(name_m a \<mapsto> a)) cs n = Some i"
    by (simp only: foldl.simps)
  from Cons.IH [OF this] show ?case
    by (auto split: if_splits)
qed

lemma ctor_invariant:
  fixes strtof :: "string \<Rightarrow> 'f"
  assumes r_def: "r = CaptureScript_ctor strtof cam fileName fh ok"
  shows "typed_table (controls_m r) (frameControls_m r) \<and>
         (\<forall>n i. controls_m r n = Some i \<longrightarrow> i \<in> set cam)"
proof (cases fh)
  case None
  then show ?thesis
    by (simp add: r_def CaptureScript_ctor_def typed_table_def)
next
  case (Some script)
  define this1 :: "'f CaptureScript" where
    "this1 = \<lparr>controls_m = foldl (\<lambda>m control. m(name_m control \<mapsto> control)) Map.empty cam,
       frameControls_m = Map.empty, parser_m = [], valid_m = False, cerr = []\<rparr>"
  obtain ret this2 where ps: "parseScript strtof ok script this1 = (ret, this2)"
    by (cases "parseScript strtof ok script this1")
  have t1: "typed_table (controls_m this1) (frameControls_m this1)"
    by (simp add: this1_def typed_table_def)
  have c1: "\<forall>n i. controls_m this1 n = Some i \<longrightarrow> i \<in> set cam"
    using foldl_controls_mem [of Map.empty cam] by (auto simp: this1_def)
  have r: "r = this2 \<or> r = this2\<lparr>valid_m := True\<rparr>"
    using Some ps by (simp add: r_def CaptureScript_ctor_def Let_def this1_def)
  from parseScript_fields [OF ps] t1 c1 r show ?thesis by auto
qed

subsection \<open>Integers of the decoder\<close>

lemma sint_word_of_int_32:
  assumes "- (2 ^ 31) \<le> n" and "n < 2 ^ 31"
  shows "sint (word_of_int n :: 32 word) = n"
  using assms by (simp add: sint_sbintrunc' signed_take_bit_int_eq_self)

lemma sint_word_of_int_64:
  assumes "- (2 ^ 63) \<le> n" and "n < 2 ^ 63"
  shows "sint (word_of_int n :: 64 word) = n"
  using assms by (simp add: sint_sbintrunc' signed_take_bit_int_eq_self)

lemma uint_word_of_int_8: "uint (word_of_int n :: 8 word) = n mod 256"
  by (simp add: uint_word_of_int)

lemma strtol_literal:
  "decimal_literal s \<Longrightarrow> strtol s = max LONG_MIN (min LONG_MAX (literal_value s))"
  unfolding strtol_def by (rule strto_range_literal)

lemma strtoll_literal:
  "decimal_literal s \<Longrightarrow> strtoll s = max LLONG_MIN (min LLONG_MAX (literal_value s))"
  unfolding strtoll_def by (rule strto_range_literal)

lemma strtol_literal_in_range:
  assumes "decimal_literal s" and "LONG_MIN \<le> literal_value s" and "literal_value s \<le> LONG_MAX"
  shows "strtol s = literal_value s"
  using assms by (simp add: strtol_literal)

lemma strtoll_literal_in_range:
  assumes "decimal_literal s" and "LLONG_MIN \<le> literal_value s"
    and "literal_value s \<le> LLONG_MAX"
  shows "strtoll s = literal_value s"
  using assms by (simp add: strtoll_literal)

lemma decimal_literal_c_str: "decimal_literal s \<Longrightarrow> c_str s = s"
proof -
  assume d: "decimal_literal s"
  then obtain c ds where s: "s = c # ds"
    by (cases s) (simp_all add: decimal_literal_def)
  show ?thesis
  proof (cases "c = CHR ''-'' \<or> c = CHR ''+''")
    case True
    with d s have "list_all isdigit ds" by (simp add: decimal_literal_def)
    from c_str_digits [OF this] True s show ?thesis by (auto simp: c_str_Cons)
  next
    case False
    with d s have "list_all isdigit s" by (simp add: decimal_literal_def)
    then show ?thesis by (rule c_str_digits)
  qed
qed

lemma unpackControl_literal:
  assumes "decimal_literal s"
  shows
   "(type_m i = ControlTypeByte \<longrightarrow>
       unpackControl strtof i s =
         (ValueByte (word_of_int (max LONG_MIN (min LONG_MAX (literal_value s)))), [])) \<and>
    (type_m i = ControlTypeByte \<and> LONG_MIN \<le> literal_value s \<and> literal_value s \<le> LONG_MAX \<longrightarrow>
       (\<exists>w. unpackControl strtof i s = (ValueByte w, []) \<and> uint w = literal_value s mod 256)) \<and>
    (type_m i = ControlTypeInteger32 \<longrightarrow>
       unpackControl strtof i s =
         (ValueInteger32 (word_of_int (max LONG_MIN (min LONG_MAX (literal_value s)))), [])) \<and>
    (type_m i = ControlTypeInteger32 \<and> - (2 ^ 31) \<le> literal_value s \<and> literal_value s < 2 ^ 31 \<longrightarrow>
       (\<exists>w. unpackControl strtof i s = (ValueInteger32 w, []) \<and> sint w = literal_value s)) \<and>
    (type_m i = ControlTypeInteger64 \<longrightarrow>
       unpackControl strtof i s =
         (ValueInteger64 (word_of_int (max LLONG_MIN (min LLONG_MAX (literal_value s)))), [])) \<and>
    (type_m i = ControlTypeInteger64 \<and> - (2 ^ 63) \<le> literal_value s \<and> literal_value s < 2 ^ 63 \<longrightarrow>
       (\<exists>w. unpackControl strtof i s = (ValueInteger64 w, []) \<and> sint w = literal_value s)) \<and>
    (type_m i = ControlTypeFloat \<longrightarrow> unpackControl strtof i s = (ValueFloat (strtof s), []))"
proof -
  note l = strtol_literal [OF assms] and ll = strtoll_literal [OF assms]
  have byte: "uint (word_of_int (strtol s) :: 8 word) = literal_value s mod 256"
    if "LONG_MIN \<le> literal_value s" "literal_value s \<le> LONG_MAX"
    using strtol_literal_in_range [OF assms that] by (simp add: uint_word_of_int_8)
  have i32: "sint (word_of_int (strtol s) :: 32 word) = literal_value s"
    if "- (2 ^ 31) \<le> literal_value s" "literal_value s < 2 ^ 31"
  proof -
    have "strtol s = literal_value s"
      using that by (intro strtol_literal_in_range [OF assms]) (simp_all add: LONG_MIN_def LONG_MAX_def)
    with that show ?thesis by (simp add: sint_word_of_int_32)
  qed
  have i64: "sint (word_of_int (strtoll s) :: 64 word) = literal_value s"
    if "- (2 ^ 63) \<le> literal_value s" "literal_value s < 2 ^ 63"
  proof -
    have "strtoll s = literal_value s"
      using that by (intro strtoll_literal_in_range [OF assms]) (simp_all add: LLONG_MIN_def LLONG_MAX_def)
    with that show ?thesis by (simp add: sint_word_of_int_64)
  qed
  show ?thesis
    using byte i32 i64
    by (simp add: unpackControl_def decimal_literal_c_str [OF assms] l [symmetric] ll [symmetric])
qed

lemma unpackControl_non_numeric:
  assumes "non_numeric t"
  shows "(type_m i = ControlTypeByte \<longrightarrow> unpackControl strtof i t = (ValueByte 0, [])) \<and>
    (type_m i = ControlTypeInteger32 \<longrightarrow> unpackControl strtof i t = (ValueInteger32 0, [])) \<and>
    (type_m i = ControlTypeInteger64 \<longrightarrow> unpackControl strtof i t = (ValueInteger64 0, [])) \<and>
    (type_m i = ControlTypeFloat \<longrightarrow>
       unpackControl strtof i t = (ValueFloat (strtof (c_str t)), []))"
  using assms by (simp add: unpackControl_def strtol_non_numeric strtoll_non_numeric)

subsection \<open>The float of the decoder\<close>

lemmas float_defs =
  strtof_C_def strtof_starts_number_def strtof_hex_def strtof_mantissa_def
  strtof_exponent_def digits_value_def xdigit_value_def isxdigit_def tolower_def
  binary32_scale_def binary32_round_def floor_log2_def round_nearest_even_def
  bitlen.simps float32_zero_def special_float_text_def

lemmas float_literal_defs =
  float_literal_def float_text_def float_literal_scaled_def sign_text_def fraction_text_def
  exponent_text_def fraction_digits_def exponent_value_def

lemma bitlen_0: "bitlen 0 = 0"
  by (simp add: bitlen.simps)

lemma bitlen_pos: "0 < n \<Longrightarrow> bitlen n = Suc (bitlen (n div 2))"
  by (subst bitlen.simps) simp

lemma bitlen_1: "bitlen (Suc 0) = Suc 0"
  by (simp add: bitlen_pos bitlen_0)

lemma bitlen_upper: "n < 2 ^ bitlen n"
proof (induction n rule: bitlen.induct)
  case (1 n)
  show ?case
  proof (cases "n = 0")
    case True
    then show ?thesis by (simp add: bitlen_0)
  next
    case False
    with 1 have "n div 2 < 2 ^ bitlen (n div 2)" by simp
    then have "n < 2 * 2 ^ bitlen (n div 2)" by linarith
    with False show ?thesis by (simp add: bitlen_pos)
  qed
qed

lemma bitlen_lower: "0 < n \<Longrightarrow> 2 ^ (bitlen n - 1) \<le> n"
proof (induction n rule: bitlen.induct)
  case (1 n)
  show ?case
  proof (cases "n div 2 = 0")
    case True
    with "1.prems" have "n = 1" by linarith
    then show ?thesis by (simp add: bitlen_1)
  next
    case False
    then have pos: "0 < n div 2" by simp
    with 1 have ih: "2 ^ (bitlen (n div 2) - 1) \<le> n div 2" by simp
    have b: "bitlen n = Suc (bitlen (n div 2))"
      using "1.prems" by (rule bitlen_pos)
    have "0 < bitlen (n div 2)"
      using pos by (simp add: bitlen_pos)
    then have "2 ^ (bitlen n - 1) = 2 * 2 ^ (bitlen (n div 2) - 1)"
      by (cases "bitlen (n div 2)") (simp_all add: b)
    also have "\<dots> \<le> 2 * (n div 2)" using ih by simp
    also have "\<dots> \<le> n" by simp
    finally show ?thesis .
  qed
qed

lemma round_nearest_even_exact:
  assumes "0 < d"
  shows "round_nearest_even (q * d) d = q"
  using assms by (simp add: round_nearest_even_def)

lemma floor_log2_int:
  assumes "0 < n"
  shows "floor_log2 n (Suc 0) = int (bitlen n) - 1"
proof -
  have b: "0 < bitlen n" using assms by (simp add: bitlen_pos)
  then have "nat (int (bitlen n) - 1) = bitlen n - 1" "nat (1 - int (bitlen n)) = 0"
    by simp_all
  with bitlen_lower [OF assms] show ?thesis
    by (simp add: floor_log2_def bitlen_1 Let_def)
qed

lemma binary32_round_exact:
  assumes n: "n = m * 2 ^ e" and pos: "0 < n" and m: "m < 2 ^ 24" and e: "e \<le> 104"
  shows "\<exists>m1 e1. binary32_round neg n (Suc 0) = Finite neg m1 e1 \<and> - 149 \<le> e1 \<and>
           int m1 * 2 ^ nat (e1 + 149) = int n * 2 ^ 149"
proof -
  define a where "a = bitlen n"
  have a_pos: "0 < a" using pos by (simp add: a_def bitlen_pos)
  have up: "n < 2 ^ a" unfolding a_def by (rule bitlen_upper)
  have lo: "2 ^ (a - 1) \<le> n" unfolding a_def using pos by (rule bitlen_lower)
  have fl: "floor_log2 n (Suc 0) = int a - 1"
    unfolding a_def using pos by (rule floor_log2_int)
  have ex: "max (floor_log2 n (Suc 0) - 23) (- 149) = int a - 24"
    using a_pos by (simp add: fl)
  show ?thesis
  proof (cases "a \<le> 24")
    case True
    define m1 where "m1 = n * 2 ^ (24 - a)"
    have r: "(if 0 \<le> int a - 24 then round_nearest_even n (Suc 0 * 2 ^ nat (int a - 24))
              else round_nearest_even (n * 2 ^ nat (- (int a - 24))) (Suc 0)) = m1"
    proof (cases "a = 24")
      case True
      then show ?thesis
        using round_nearest_even_exact [of "Suc 0" n] by (simp add: m1_def)
    next
      case False
      with True have "nat (- (int a - 24)) = 24 - a" "\<not> 0 \<le> int a - 24" by simp_all
      then show ?thesis
        using round_nearest_even_exact [of "Suc 0" "n * 2 ^ (24 - a)"] by (simp add: m1_def)
    qed
    have "n * 2 ^ (24 - a) < 2 ^ a * 2 ^ (24 - a)"
      using up by simp
    also have "\<dots> = 2 ^ 24"
      using True by (simp add: power_add [symmetric])
    finally have small: "m1 < 2 ^ 24" by (simp add: m1_def)
    have ne: "m1 \<noteq> 2 ^ 24" using small by simp
    have le: "\<not> 104 < int a - 24" using True by simp
    have res: "binary32_round neg n (Suc 0) = Finite neg m1 (int a - 24)"
      unfolding binary32_round_def ex Let_def r using pos ne le by simp
    have "nat (int a - 24 + 149) + (24 - a) = 149"
      using True a_pos by simp
    then have "(2::int) ^ (24 - a) * 2 ^ nat (int a - 24 + 149) = 2 ^ 149"
      by (metis add.commute power_add)
    then have "int m1 * 2 ^ nat (int a - 24 + 149) = int n * 2 ^ 149"
      by (simp add: m1_def mult.assoc)
    with res a_pos show ?thesis by simp
  next
    case False
    then have big: "24 < a" by simp
    define d where "d = a - 24"
    have "2 ^ (a - 1) < (2::nat) ^ (24 + e)"
    proof -
      have "n < 2 ^ 24 * 2 ^ e" using m n by simp
      with lo show ?thesis by (simp add: power_add)
    qed
    then have "a - 1 < 24 + e" by simp
    then have de: "d \<le> e" by (simp add: d_def)
    define q where "q = m * 2 ^ (e - d)"
    have nq: "n = q * 2 ^ d"
      using de by (simp add: q_def n mult.assoc power_add [symmetric])
    have nd: "nat (int a - 24) = d" using big by (simp add: d_def)
    have r: "(if 0 \<le> int a - 24 then round_nearest_even n (Suc 0 * 2 ^ nat (int a - 24))
              else round_nearest_even (n * 2 ^ nat (- (int a - 24))) (Suc 0)) = q"
      using round_nearest_even_exact [of "2 ^ d" q] big by (simp add: nq nd)
    have "a = 24 + d" using big by (simp add: d_def)
    then have "(2::nat) ^ a = 2 ^ 24 * 2 ^ d" by (simp only: power_add)
    with up have "q * 2 ^ d < 2 ^ 24 * 2 ^ d" by (simp only: nq)
    then have small: "q < 2 ^ 24" by simp
    have ne: "q \<noteq> 2 ^ 24" using small by simp
    have le: "\<not> 104 < int a - 24" using de e by (simp add: d_def)
    have res: "binary32_round neg n (Suc 0) = Finite neg q (int a - 24)"
      unfolding binary32_round_def ex Let_def r using pos ne le by simp
    have "nat (int a - 24 + 149) = d + 149" using big by (simp add: d_def)
    then have "int q * 2 ^ nat (int a - 24 + 149) = int n * 2 ^ 149"
      by (simp add: nq power_add mult.assoc)
    with res big show ?thesis by simp
  qed
qed

lemma xdigit_value_digit: "isdigit c \<Longrightarrow> int (xdigit_value c) = digit_value c"
  by (simp add: xdigit_value_def digit_value_def isdigit_def)

lemma foldl_digits_value:
  "list_all isdigit ds \<Longrightarrow>
     int (foldl (\<lambda>acc c. 10 * acc + xdigit_value c) a ds) =
       int a * 10 ^ length ds + decimal_value ds"
  by (induction ds arbitrary: a) (simp_all add: xdigit_value_digit algebra_simps)

lemma digits_value_decimal:
  "list_all isdigit ds \<Longrightarrow> int (digits_value 10 ds) = decimal_value ds"
  by (simp add: digits_value_def foldl_digits_value)

lemma dropWhile_all: "list_all P xs \<Longrightarrow> dropWhile P xs = []"
  by (induction xs) simp_all

lemma strtof_mantissa_digits:
  "list_all isdigit ds \<Longrightarrow> strtof_mantissa isdigit ds = (ds, [], [])"
  by (simp add: strtof_mantissa_def takeWhile_all dropWhile_all)

lemma tolower_digit: "isdigit c \<Longrightarrow> tolower c = c"
  by (simp add: tolower_def isdigit_def)

lemma isdigit_not_x: "isdigit c \<Longrightarrow> c \<noteq> CHR ''x''"
  by (auto simp: isdigit_def)

lemma strtof_hex_digits: "list_all isdigit ds \<Longrightarrow> strtof_hex ds = None"
proof (cases ds)
  case Nil
  then show ?thesis by (simp add: strtof_hex_def)
next
  case (Cons c r)
  assume d: "list_all isdigit ds"
  show ?thesis
  proof (cases r)
    case Nil
    with Cons show ?thesis by (simp add: strtof_hex_def)
  next
    case (Cons x r1)
    with d \<open>ds = c # r\<close> have "isdigit x" by simp
    then have "tolower x \<noteq> CHR ''x''"
      using tolower_digit isdigit_not_x by simp
    with Cons \<open>ds = c # r\<close> show ?thesis by (simp add: strtof_hex_def)
  qed
qed

lemma strtof_C_digits:
  assumes "list_all isdigit ds" and "ds \<noteq> []"
    and "strto_sign (dropWhile isspace s) = (neg, ds)"
  shows "strtof_C s = binary32_round neg (nat (decimal_value ds)) (Suc 0)"
proof -
  from assms(1,2) have st: "strtof_starts_number ds"
    by (cases ds) (simp_all add: strtof_starts_number_def)
  have dv: "digits_value 10 ds = nat (decimal_value ds)"
    using digits_value_decimal [OF assms(1)] by simp
  show ?thesis
    unfolding strtof_C_def assms(3)
    by (simp add: st strtof_hex_digits [OF assms(1)] strtof_mantissa_digits [OF assms(1)]
          strtof_exponent_def binary32_scale_def dv)
qed

lemma decimal_value_nonneg: "list_all isdigit ds \<Longrightarrow> 0 \<le> decimal_value ds"
  by (induction ds) (auto simp: digit_value_def isdigit_def)

lemma literal_value_split:
  assumes "decimal_literal s"
  obtains ds where "list_all isdigit ds" and "ds \<noteq> []"
    and "strto_sign (dropWhile isspace s) = (hd s = CHR ''-'', ds)"
    and "literal_value s = (if hd s = CHR ''-'' then - decimal_value ds else decimal_value ds)"
proof -
  from assms obtain c r where s: "s = c # r"
    by (cases s) (simp_all add: decimal_literal_def)
  show ?thesis
  proof (cases "c = CHR ''-'' \<or> c = CHR ''+''")
    case True
    with assms have ds: "list_all isdigit r" "r \<noteq> []"
      by (simp_all add: s decimal_literal_def)
    have sp: "\<not> isspace c" using True by (auto simp: isspace_def)
    have "strto_sign (dropWhile isspace (c # r)) = (c = CHR ''-'', r)"
      using True sp by (auto simp: strto_sign_def)
    moreover have "literal_value (c # r) =
        (if c = CHR ''-'' then - decimal_value r else decimal_value r)"
      using True by (auto simp: literal_value_def)
    ultimately show ?thesis using ds that [of r] by (simp add: s)
  next
    case False
    with assms have all: "list_all isdigit (c # r)"
      by (simp add: s decimal_literal_def)
    then have c: "isdigit c" by simp
    have "strto_sign (dropWhile isspace (c # r)) = (False, c # r)"
      using isdigit_not_space [OF c] isdigit_not_sign [OF c] by (simp add: strto_sign_def)
    moreover have "literal_value (c # r) = decimal_value (c # r)"
      using False by (simp add: literal_value_def)
    moreover have "c \<noteq> CHR ''-''" using False by simp
    ultimately show ?thesis using all that [of "c # r"]
      by (simp add: s del: decimal_value.simps)
  qed
qed

lemma unpackControl_float_literal:
  assumes "decimal_literal s" and "type_m i = ControlTypeFloat"
    and "\<bar>literal_value s\<bar> = int (m * 2 ^ e)" and "m < 2 ^ 24" and "e \<le> 104"
  shows "\<exists>f. unpackControl strtof_C i s = (ValueFloat f, []) \<and>
             float32_scaled f = Some (literal_value s * 2 ^ 149)"
proof -
  from assms(1) obtain ds where ds: "list_all isdigit ds" "ds \<noteq> []"
    and sg: "strto_sign (dropWhile isspace s) = (hd s = CHR ''-'', ds)"
    and lv: "literal_value s = (if hd s = CHR ''-'' then - decimal_value ds else decimal_value ds)"
    by (rule literal_value_split)
  let ?neg = "hd s = CHR ''-''"
  let ?n = "nat (decimal_value ds)"
  note nn = decimal_value_nonneg [OF ds(1)]
  have u: "unpackControl strtof_C i s = (ValueFloat (binary32_round ?neg ?n (Suc 0)), [])"
    using assms(2)
    by (simp add: unpackControl_def decimal_literal_c_str [OF assms(1)]
          strtof_C_digits [OF ds sg])
  have "\<bar>literal_value s\<bar> = decimal_value ds" using lv nn by simp
  with assms(3) have "decimal_value ds = int (m * 2 ^ e)" by simp
  then have n: "?n = m * 2 ^ e" by (simp only: nat_int)
  have lvn: "literal_value s = (if ?neg then - int ?n else int ?n)"
    using lv nn by simp
  show ?thesis
  proof (cases "?n = 0")
    case True
    with u lvn show ?thesis by (simp add: binary32_round_def)
  next
    case False
    then have pos: "0 < ?n" by simp
    from binary32_round_exact [OF n pos assms(4,5), of ?neg]
    obtain m1 e1 where r: "binary32_round ?neg ?n (Suc 0) = Finite ?neg m1 e1"
      and v: "int m1 * 2 ^ nat (e1 + 149) = int ?n * 2 ^ 149"
      by blast
    have "float32_scaled (Finite ?neg m1 e1) = Some (literal_value s * 2 ^ 149)"
      using v by (simp add: lvn mult.assoc del: nat_int)
    with u r show ?thesis by simp
  qed
qed

lemma strtof_C_non_numeric:
  assumes "non_numeric t" and "\<not> special_float_text t"
  shows "strtof_C (c_str t) = float32_zero"
proof -
  obtain neg r where sg: "strto_sign (dropWhile isspace (c_str t)) = (neg, r)"
    by (cases "strto_sign (dropWhile isspace (c_str t))")
  have a: "set (c_str t) \<subseteq> set t"
    unfolding c_str_def by (auto dest: set_takeWhileD)
  have b: "set (dropWhile isspace (c_str t)) \<subseteq> set (c_str t)"
    by (auto dest: set_dropWhileD)
  have c: "set r \<subseteq> set (dropWhile isspace (c_str t))"
    using strto_sign_subset [of "dropWhile isspace (c_str t)"] sg by simp
  from a b c have "set r \<subseteq> set t" by blast
  with assms(1) have nd: "\<forall>c \<in> set r. \<not> isdigit c"
    unfolding non_numeric_def list_all_iff by blast
  have st: "\<not> strtof_starts_number r"
    using nd by (auto simp: strtof_starts_number_def split: list.splits)
  have sp: "map tolower (take 3 r) \<noteq> ''inf''" "map tolower (take 3 r) \<noteq> ''nan''"
    using assms(2) sg by (simp_all add: special_float_text_def)
  show ?thesis
    unfolding strtof_C_def sg using st sp by simp
qed

lemma ge_pow2_shift:
  assumes "0 \<le> k + int c"
  shows "ge_pow2 num den k \<longleftrightarrow> den * 2 ^ nat (k + int c) \<le> num * 2 ^ c"
proof (cases "0 \<le> k")
  case True
  then have "nat (k + int c) = nat k + c" "nat (- k) = 0" by simp_all
  then show ?thesis by (simp add: ge_pow2_def power_add)
next
  case False
  define d where "d = nat (- k)"
  from False assms have dc: "d \<le> c" and k: "k = - int d" by (simp_all add: d_def)
  have "nat (k + int c) = c - d" "nat k = 0" "nat (- k) = d" using dc k by simp_all
  moreover have "(den * 2 ^ (c - d) \<le> num * 2 ^ c) = (den \<le> num * 2 ^ d)"
  proof -
    have "(2::nat) ^ c = 2 ^ d * 2 ^ (c - d)"
      using dc by (simp add: power_add [symmetric])
    then have "num * 2 ^ c = (num * 2 ^ d) * 2 ^ (c - d)"
      by (simp only: mult.assoc)
    then show ?thesis by (simp only: mult_le_cancel2) simp
  qed
  ultimately show ?thesis by (simp add: ge_pow2_def)
qed

lemma ge_pow2_mono:
  assumes "ge_pow2 num den k" and "k' \<le> k"
  shows "ge_pow2 num den k'"
proof -
  define c where "c = nat (- k')"
  have c: "0 \<le> k' + int c" "0 \<le> k + int c" using assms(2) by (simp_all add: c_def)
  have "nat (k' + int c) \<le> nat (k + int c)" using assms(2) by simp
  then have "den * 2 ^ nat (k' + int c) \<le> den * 2 ^ nat (k + int c)"
    by (simp add: power_increasing)
  also have "\<dots> \<le> num * 2 ^ c"
    using assms(1) ge_pow2_shift [OF c(2)] by simp
  finally show ?thesis using ge_pow2_shift [OF c(1)] by simp
qed

lemma floor_log2_char:
  assumes "0 < num" and "0 < den"
  shows "ge_pow2 num den (floor_log2 num den) \<and> \<not> ge_pow2 num den (floor_log2 num den + 1)"
proof -
  define a where "a = bitlen num"
  define b where "b = bitlen den"
  define k0 where "k0 = int a - int b"
  have a_pos: "0 < a" and b_pos: "0 < b"
    using assms by (simp_all add: a_def b_def bitlen_pos)
  have na: "num < 2 ^ a" unfolding a_def by (rule bitlen_upper)
  have an: "2 ^ (a - 1) \<le> num" unfolding a_def using assms(1) by (rule bitlen_lower)
  have db: "den < 2 ^ b" unfolding b_def by (rule bitlen_upper)
  have bd: "2 ^ (b - 1) \<le> den" unfolding b_def using assms(2) by (rule bitlen_lower)
  have fl: "floor_log2 num den = (if ge_pow2 num den k0 then k0 else k0 - 1)"
    by (simp add: floor_log2_def ge_pow2_def k0_def a_def b_def Let_def)
  have s0: "ge_pow2 num den k \<longleftrightarrow> den * 2 ^ nat (k + int b) \<le> num * 2 ^ b"
    if "0 \<le> k + int b" for k
    using that by (rule ge_pow2_shift)
  show ?thesis
  proof (cases "ge_pow2 num den k0")
    case True
    have "2 ^ b = 2 * (2::nat) ^ (b - 1)"
      using b_pos by (cases b) simp_all
    then have "2 ^ b \<le> 2 * den" using bd by simp
    then have "num * 2 ^ b \<le> num * (2 * den)" by (rule mult_le_mono2)
    also have "\<dots> < 2 ^ a * (2 * den)"
      using na assms(2) by simp
    also have "\<dots> = den * 2 ^ (a + 1)" by simp
    finally have "\<not> den * 2 ^ (a + 1) \<le> num * 2 ^ b" by simp
    moreover have "nat (k0 + 1 + int b) = a + 1" by (simp add: k0_def)
    ultimately have "\<not> ge_pow2 num den (k0 + 1)"
      using s0 [of "k0 + 1"] by (simp add: k0_def)
    with True fl show ?thesis by simp
  next
    case False
    have "den * 2 ^ (a - 1) \<le> 2 ^ b * num"
      using db an by (intro mult_mono) simp_all
    moreover have "nat (k0 - 1 + int b) = a - 1" using a_pos by (simp add: k0_def)
    ultimately have "ge_pow2 num den (k0 - 1)"
      using s0 [of "k0 - 1"] a_pos by (simp add: k0_def mult.commute)
    with False fl show ?thesis by simp
  qed
qed

lemma floor_log2_unique:
  assumes "0 < num" and "0 < den"
    and "ge_pow2 num den k" and "\<not> ge_pow2 num den (k + 1)"
  shows "floor_log2 num den = k"
proof -
  let ?f = "floor_log2 num den"
  from floor_log2_char [OF assms(1,2)]
  have f: "ge_pow2 num den ?f" "\<not> ge_pow2 num den (?f + 1)" by simp_all
  have "\<not> k + 1 \<le> ?f" using ge_pow2_mono [OF f(1)] assms(4) by blast
  moreover have "\<not> ?f + 1 \<le> k" using ge_pow2_mono [OF assms(3)] f(2) by blast
  ultimately show ?thesis by simp
qed

lemma bitlen_le:
  assumes "z < 2 ^ n"
  shows "bitlen z \<le> n"
proof (cases "z = 0")
  case True
  then show ?thesis by (simp add: bitlen_0)
next
  case False
  then have "0 < z" by simp
  then have "2 ^ (bitlen z - 1) \<le> z" by (rule bitlen_lower)
  from this assms have "(2::nat) ^ (bitlen z - 1) < 2 ^ n" by (rule le_less_trans)
  then have "bitlen z - 1 < n" by (simp only: power_strict_increasing_iff [of 2] one_less_numeral_iff semiring_norm)
  then show ?thesis by simp
qed

lemma binary32_round_ratio:
  assumes num: "0 < num" and den: "0 < den"
    and rel: "num * 2 ^ 149 = z * den"
    and z: "z = m * 2 ^ j" and m: "m < 2 ^ 24" and j: "j \<le> 253"
  shows "\<exists>m1 e1. binary32_round neg num den = Finite neg m1 e1 \<and> - 149 \<le> e1 \<and>
           m1 * 2 ^ nat (e1 + 149) = z"
proof -
  have z_pos: "0 < z"
  proof (rule ccontr)
    assume "\<not> 0 < z"
    then have "z = 0" by simp
    with rel num show False by simp
  qed
  define a where "a = bitlen z"
  have a_pos: "0 < a" using z_pos by (simp add: a_def bitlen_pos)
  have up: "z < 2 ^ a" unfolding a_def by (rule bitlen_upper)
  have lo: "2 ^ (a - 1) \<le> z" unfolding a_def using z_pos by (rule bitlen_lower)
  define K where "K = int a - 150"
  define c where "c = (149::nat)"
  have relc: "num * 2 ^ c = z * den" using rel by (simp only: c_def)
  have Kc: "K + int c = int a - 1" by (simp add: K_def c_def)
  have g1: "ge_pow2 num den K"
  proof -
    have n1: "nat (K + int c) = a - 1" using a_pos by (simp add: Kc nat_diff_distrib)
    have "den * 2 ^ (a - 1) \<le> den * z" using lo by simp
    then have "den * 2 ^ nat (K + int c) \<le> num * 2 ^ c"
      by (simp only: n1 relc mult.commute [of den z])
    moreover have "0 \<le> K + int c" using a_pos by (simp add: Kc)
    ultimately show ?thesis using ge_pow2_shift [of K c num den] by simp
  qed
  have g2: "\<not> ge_pow2 num den (K + 1)"
  proof -
    have n2: "nat (K + 1 + int c) = a" using Kc by simp
    have "z * den < 2 ^ a * den" using up den by simp
    then have "\<not> den * 2 ^ nat (K + 1 + int c) \<le> num * 2 ^ c"
      by (simp only: n2 relc mult.commute [of den "2 ^ a"] not_le)
    moreover have "0 \<le> K + 1 + int c" using Kc by simp
    ultimately show ?thesis using ge_pow2_shift [of "K + 1" c num den] by simp
  qed
  have fl: "floor_log2 num den = K"
    using num den g1 g2 by (rule floor_log2_unique)
  define e' where "e' = a - 24"
  define er where "er = int e' - 149"
  have ex: "max (floor_log2 num den - 23) (- 149) = er"
    by (auto simp: fl K_def er_def e'_def)
  have "z < 2 ^ 24 * 2 ^ j" using m z by simp
  then have "z < 2 ^ (24 + j)" by (simp add: power_add)
  then have aj: "a \<le> 24 + j" unfolding a_def by (rule bitlen_le)
  then have ej: "e' \<le> j" by (simp add: e'_def)
  define M where "M = m * 2 ^ (j - e')"
  have zM: "z = M * 2 ^ e'"
    using ej by (simp add: M_def z mult.assoc power_add [symmetric])
  have "a \<le> 24 + e'" by (simp add: e'_def)
  then have "(2::nat) ^ a \<le> 2 ^ (24 + e')" by (simp add: power_increasing)
  then have "(2::nat) ^ a \<le> 2 ^ 24 * 2 ^ e'" by (simp only: power_add)
  with up have "z < 2 ^ 24 * 2 ^ e'" by (rule less_le_trans)
  then have "M * 2 ^ e' < 2 ^ 24 * 2 ^ e'" by (simp only: zM)
  then have small: "M < 2 ^ 24" by (simp only: mult_less_cancel2)
  have sig: "(if 0 \<le> er then round_nearest_even num (den * 2 ^ nat er)
              else round_nearest_even (num * 2 ^ nat (- er)) den) = M"
  proof (cases "0 \<le> er")
    case True
    then have e: "e' = nat er + c" by (simp add: er_def c_def)
    have "num * 2 ^ c = (M * (den * 2 ^ nat er)) * 2 ^ c"
      by (simp only: relc zM e power_add mult.assoc mult.left_commute mult.commute)
    then have "num = M * (den * 2 ^ nat er)" by (simp only: mult_cancel2) simp
    with True den show ?thesis by (simp add: round_nearest_even_exact)
  next
    case False
    then have e: "nat (- er) = c - e'" "e' \<le> c" by (simp_all add: er_def c_def)
    have "(2::nat) ^ c = 2 ^ (c - e') * 2 ^ e'"
      using e(2) by (simp add: power_add [symmetric])
    then have "(num * 2 ^ (c - e')) * 2 ^ e' = (M * den) * 2 ^ e'"
      using relc by (simp add: zM mult.assoc mult.left_commute)
    then have "num * 2 ^ (c - e') = M * den" by (simp only: mult_cancel2) simp
    with False den show ?thesis by (simp add: e round_nearest_even_exact)
  qed
  have ne: "M \<noteq> 2 ^ 24" using small by simp
  have le: "\<not> 104 < er" using ej j by (simp add: er_def)
  have res: "binary32_round neg num den = Finite neg M er"
    unfolding binary32_round_def ex Let_def sig using num ne le by simp
  have "nat (er + 149) = e'" by (simp add: er_def)
  with res zM show ?thesis by (simp add: er_def)
qed

lemma span_digits:
  assumes "list_all isdigit ds" and "r = [] \<or> \<not> isdigit (hd r)"
  shows "takeWhile isdigit (ds @ r) = ds" and "dropWhile isdigit (ds @ r) = r"
proof -
  have "takeWhile isdigit r = [] \<and> dropWhile isdigit r = r"
    using assms(2) by (cases r) auto
  with assms(1) show "takeWhile isdigit (ds @ r) = ds" and "dropWhile isdigit (ds @ r) = r"
    by (induction ds) simp_all
qed

lemma tolower_E: "tolower (CHR ''E'') = CHR ''e''"
  by code_simp

lemma exponent_text_head:
  assumes "float_literal sg ip fp ex"
  shows "exponent_text ex = [] \<or>
         (\<not> isdigit (hd (exponent_text ex)) \<and> hd (exponent_text ex) \<noteq> CHR ''.'')"
  using assms
  by (auto simp: float_literal_def exponent_text_def isdigit_def split: option.splits)

lemma fraction_text_head:
  "fraction_text fp = [] \<or> \<not> isdigit (hd (fraction_text fp))"
  by (auto simp: fraction_text_def isdigit_def split: option.splits)

lemma strtof_mantissa_float:
  assumes "float_literal sg ip fp ex"
  shows "strtof_mantissa isdigit (ip @ fraction_text fp @ exponent_text ex) =
           (ip, fraction_digits fp, exponent_text ex)"
proof -
  from assms have ip: "list_all isdigit ip" by (simp add: float_literal_def)
  note eh = exponent_text_head [OF assms]
  have h: "fraction_text fp @ exponent_text ex = [] \<or>
           \<not> isdigit (hd (fraction_text fp @ exponent_text ex))"
    using eh fraction_text_head [of fp] by (cases "fraction_text fp") auto
  note s = span_digits [OF ip h]
  show ?thesis
  proof (cases fp)
    case None
    with eh show ?thesis
      unfolding strtof_mantissa_def Let_def s
      by (cases "exponent_text ex") (auto simp: fraction_text_def fraction_digits_def)
  next
    case (Some fd)
    with assms have fd: "list_all isdigit fd" by (simp add: float_literal_def)
    from eh have h2: "exponent_text ex = [] \<or> \<not> isdigit (hd (exponent_text ex))" by blast
    note s2 = span_digits [OF fd h2]
    show ?thesis
      unfolding strtof_mantissa_def Let_def s
      by (simp add: Some fraction_text_def fraction_digits_def s2)
  qed
qed

lemma strto_sign_text:
  assumes "sign_text sg" and "r \<noteq> []" and "hd r \<noteq> CHR ''-''" and "hd r \<noteq> CHR ''+''"
  shows "strto_sign (sg @ r) = (sg = ''-'', r)"
  using assms by (cases r) (auto simp: sign_text_def strto_sign_def)

lemma strtof_exponent_float:
  assumes "float_literal sg ip fp ex"
  shows "strtof_exponent (CHR ''e'') (exponent_text ex) = exponent_value ex"
proof (cases ex)
  case None
  then show ?thesis by (simp add: strtof_exponent_def exponent_text_def exponent_value_def)
next
  case (Some p)
  obtain c es ed where p: "p = (c, es, ed)" by (cases p)
  from assms Some p have c: "c = CHR ''e'' \<or> c = CHR ''E''" and es: "sign_text es"
    and ed: "ed \<noteq> []" "list_all isdigit ed"
    by (simp_all add: float_literal_def)
  from ed have hd: "isdigit (hd ed)" by (cases ed) simp_all
  have sg: "strto_sign (es @ ed) = (es = ''-'', ed)"
    using es ed(1) isdigit_not_sign [OF hd] by (intro strto_sign_text) simp_all
  have lc: "tolower c = CHR ''e''" using c tolower_E by (auto simp: tolower_def)
  show ?thesis
    by (simp add: Some p strtof_exponent_def exponent_text_def exponent_value_def lc sg
          takeWhile_all [OF ed(2)] digits_value_decimal [OF ed(2)])
qed

lemma strtof_hex_none:
  assumes "list_all (\<lambda>c. tolower c \<noteq> CHR ''x'') r"
  shows "strtof_hex r = None"
  using assms by (auto simp: strtof_hex_def split: list.splits)

lemma float_text_chars:
  assumes "float_literal sg ip fp ex"
  shows "list_all (\<lambda>c. isdigit c \<or> c \<in> set ''+-.eE'') (float_text sg ip fp ex)"
  using assms
  by (auto simp: float_literal_def float_text_def fraction_text_def exponent_text_def
        sign_text_def list_all_iff split: option.splits)

lemma float_char_props:
  assumes "isdigit c \<or> c \<in> set ''+-.eE''"
  shows "tolower c \<noteq> CHR ''x''" and "c \<noteq> CHR 0x00" and "\<not> isspace c"
  using assms tolower_E by (auto simp: isdigit_def tolower_def isspace_def)

lemma float_text_c_str:
  assumes "float_literal sg ip fp ex"
  shows "c_str (float_text sg ip fp ex) = float_text sg ip fp ex"
proof -
  have "list_all (\<lambda>c. c \<noteq> CHR 0x00) (float_text sg ip fp ex)"
    using float_text_chars [OF assms] float_char_props(2)
    unfolding list_all_iff by blast
  then show ?thesis unfolding c_str_def by (rule takeWhile_all)
qed

lemma float_body:
  assumes "float_literal sg ip fp ex"
  shows "ip @ fraction_text fp @ exponent_text ex \<noteq> []"
    and "strtof_starts_number (ip @ fraction_text fp @ exponent_text ex)"
    and "hd (ip @ fraction_text fp @ exponent_text ex) \<noteq> CHR ''-''"
    and "hd (ip @ fraction_text fp @ exponent_text ex) \<noteq> CHR ''+''"
proof -
  let ?r = "ip @ fraction_text fp @ exponent_text ex"
  have "?r \<noteq> [] \<and> strtof_starts_number ?r \<and> hd ?r \<noteq> CHR ''-'' \<and> hd ?r \<noteq> CHR ''+''"
  proof (cases ip)
    case (Cons c r)
    with assms have "isdigit c" by (simp add: float_literal_def)
    with Cons isdigit_not_sign [of c] show ?thesis
      by (simp add: strtof_starts_number_def)
  next
    case Nil
    with assms obtain fd where fp: "fp = Some fd" and fd: "fd \<noteq> []" "list_all isdigit fd"
      by (auto simp: float_literal_def split: option.splits)
    then obtain d r where "fd = d # r" "isdigit d" by (cases fd) simp_all
    with Nil fp show ?thesis
      by (simp add: strtof_starts_number_def fraction_text_def)
  qed
  then show "?r \<noteq> []" "strtof_starts_number ?r" "hd ?r \<noteq> CHR ''-''" "hd ?r \<noteq> CHR ''+''"
    by simp_all
qed

lemma strtof_C_float_text:
  assumes "float_literal sg ip fp ex"
  shows "strtof_C (float_text sg ip fp ex) =
           binary32_scale (sg = ''-'') (nat (decimal_value (ip @ fraction_digits fp))) 10
             (exponent_value ex - int (length (fraction_digits fp)))"
proof -
  let ?r = "ip @ fraction_text fp @ exponent_text ex"
  let ?t = "float_text sg ip fp ex"
  have t: "?t = sg @ ?r" by (simp add: float_text_def)
  note ch = float_text_chars [OF assms]
  have nsp: "dropWhile isspace ?t = ?t"
  proof (cases ?t)
    case Nil
    then show ?thesis by simp
  next
    case (Cons c r)
    with ch have "\<not> isspace c" using float_char_props(3) [of c] by simp
    with Cons show ?thesis by simp
  qed
  from assms have sgt: "sign_text sg" by (simp add: float_literal_def)
  note b = float_body [OF assms]
  have "strto_sign (sg @ ?r) = (sg = ''-'', ?r)"
    using sgt b(1,3,4) by (rule strto_sign_text)
  then have sg: "strto_sign (dropWhile isspace ?t) = (sg = ''-'', ?r)"
    by (simp only: nsp) (simp only: t)
  have "list_all (\<lambda>c. tolower c \<noteq> CHR ''x'') ?t"
    using ch float_char_props(1) unfolding list_all_iff by blast
  then have "list_all (\<lambda>c. tolower c \<noteq> CHR ''x'') ?r" by (simp add: t)
  then have hx: "strtof_hex ?r = None" by (rule strtof_hex_none)
  have dg: "list_all isdigit (ip @ fraction_digits fp)"
    using assms by (auto simp: float_literal_def fraction_digits_def split: option.splits)
  have dv: "digits_value 10 (ip @ fraction_digits fp) = nat (decimal_value (ip @ fraction_digits fp))"
    using digits_value_decimal [OF dg] by simp
  show ?thesis
    unfolding strtof_C_def sg
    by (simp add: b(2) hx strtof_mantissa_float [OF assms] strtof_exponent_float [OF assms] dv
          del: append_assoc)
qed

lemma unpackControl_float_text:
  assumes lit: "float_literal sg ip fp ex" and ty: "type_m i = ControlTypeFloat"
    and sc: "float_literal_scaled sg ip fp ex v"
    and ab: "\<bar>v\<bar> = int (m * 2 ^ j)" and m: "m < 2 ^ 24" and j: "j \<le> 253"
  shows "\<exists>f. unpackControl strtof_C i (float_text sg ip fp ex) = (ValueFloat f, []) \<and>
             float32_scaled f = Some v"
proof -
  let ?ds = "ip @ fraction_digits fp"
  define N where "N = nat (decimal_value ?ds)"
  define E where "E = exponent_value ex - int (length (fraction_digits fp))"
  define neg where "neg = (sg = ''-'')"
  define z where "z = m * 2 ^ j"
  define c where "c = (149::nat)"
  have dg: "list_all isdigit ?ds"
    using lit by (auto simp: float_literal_def fraction_digits_def split: option.splits)
  have dn: "decimal_value ?ds = int N"
    using decimal_value_nonneg [OF dg] by (simp add: N_def)
  have u: "unpackControl strtof_C i (float_text sg ip fp ex) =
             (ValueFloat (binary32_scale neg N 10 E), [])"
    using ty
    by (simp add: unpackControl_def float_text_c_str [OF lit] strtof_C_float_text [OF lit]
          N_def E_def neg_def)
  have sc': "v * 10 ^ nat (- E) = (if neg then - int N else int N) * 10 ^ nat E * 2 ^ c"
    using sc by (simp add: float_literal_scaled_def Let_def dn E_def neg_def c_def)
  have az: "\<bar>v\<bar> = int z" using ab by (simp add: z_def)
  have "\<bar>v * 10 ^ nat (- E)\<bar> = \<bar>(if neg then - int N else int N) * 10 ^ nat E * 2 ^ c\<bar>"
    by (simp only: sc')
  then have "int z * 10 ^ nat (- E) = int N * 10 ^ nat E * 2 ^ c"
    by (simp add: abs_mult az split: if_splits)
  then have "int (z * 10 ^ nat (- E)) = int (N * 10 ^ nat E * 2 ^ c)" by simp
  then have rel: "z * 10 ^ nat (- E) = N * 10 ^ nat E * 2 ^ c" by (simp only: int_int_eq)
  have pp: "(0::int) < 10 ^ nat (- E)" by simp
  have sgn: "v = (if neg then - int z else int z)"
  proof (cases neg)
    case True
    have "0 \<le> int N * 10 ^ nat E * 2 ^ c" by simp
    with sc' True have "v * 10 ^ nat (- E) \<le> 0" by simp
    then have "v \<le> 0" using pp by (simp only: mult_le_0_iff) linarith
    with az True show ?thesis by simp
  next
    case False
    have "0 \<le> int N * 10 ^ nat E * 2 ^ c" by simp
    with sc' False have "0 \<le> v * 10 ^ nat (- E)" by simp
    then have "0 \<le> v" using pp by (simp only: zero_le_mult_iff) linarith
    with az False show ?thesis by simp
  qed
  obtain num den where sd: "binary32_scale neg N 10 E = binary32_round neg num den"
    and den: "0 < den" and nd: "num * 2 ^ c = z * den"
  proof (cases "0 \<le> E")
    case True
    then have "nat (- E) = 0" by simp
    with rel have "(N * 10 ^ nat E) * 2 ^ c = z * Suc 0" by simp
    moreover have "binary32_scale neg N 10 E = binary32_round neg (N * 10 ^ nat E) (Suc 0)"
      using True by (simp add: binary32_scale_def)
    ultimately show ?thesis using that [of "N * 10 ^ nat E" "Suc 0"] by simp
  next
    case False
    then have "nat E = 0" by simp
    with rel have "N * 2 ^ c = z * 10 ^ nat (- E)" by simp
    moreover have "binary32_scale neg N 10 E = binary32_round neg N (10 ^ nat (- E))"
      using False by (simp add: binary32_scale_def)
    ultimately show ?thesis using that [of N "10 ^ nat (- E)"] by simp
  qed
  show ?thesis
  proof (cases "num = 0")
    case True
    with nd den have "z = 0" by simp
    with sgn have "v = 0" by simp
    with u sd True show ?thesis by (simp add: binary32_round_def)
  next
    case False
    then have num: "0 < num" by simp
    have nd': "num * 2 ^ 149 = z * den" using nd by (simp only: c_def)
    from binary32_round_ratio [OF num den nd' z_def m j, of neg]
    obtain m1 e1 where r: "binary32_round neg num den = Finite neg m1 e1"
      and v: "m1 * 2 ^ nat (e1 + 149) = z"
      by blast
    have "int (m1 * 2 ^ nat (e1 + 149)) = int z" by (simp only: v)
    then have "int m1 * 2 ^ nat (e1 + 149) = int z" by simp
    then have "float32_scaled (Finite neg m1 e1) = Some v"
      by (simp add: sgn)
    with u sd r show ?thesis by simp
  qed
qed

subsection \<open>Steps of the loops\<close>

lemma unpackControl_msgs:
  "snd (unpackControl strtof i repr) \<noteq> [] \<longleftrightarrow>
     type_m i = ControlTypeBool \<and> repr \<noteq> ''true'' \<and> repr \<noteq> ''false''"
  by (cases "type_m i") (simp_all add: unpackControl_def unpackFailure_def)

lemma parseFrame_controls_step:
  assumes "parser_m st = Some ev # Some vev # rest"
    and "event_type ev \<noteq> YAML_MAPPING_END_EVENT"
    and "data_scalar ev \<noteq> []" and "controls_m st (data_scalar ev) = Some i"
    and "event_type vev = YAML_SCALAR_EVENT" and "data_scalar vev \<noteq> []"
  shows "parseFrame_controls strtof controls st =
     parseFrame_controls strtof
       (controls(id_m i \<mapsto> fst (unpackControl strtof i (data_scalar vev))))
       (st\<lparr>parser_m := rest,
           cerr := cerr st @ snd (unpackControl strtof i (data_scalar vev))\<rparr>)"
proof -
  let ?s1 = "st\<lparr>parser_m := Some vev # rest\<rparr>"
  have a: "nextEvent YAML_NO_EVENT st = (Some ev, ?s1)"
    using assms(1) by (rule nextEvent_head_any)
  have b: "parseControl strtof ev controls ?s1 =
     (0, controls(id_m i \<mapsto> fst (unpackControl strtof i (data_scalar vev))),
      st\<lparr>parser_m := rest, cerr := cerr st @ snd (unpackControl strtof i (data_scalar vev))\<rparr>)"
    using parseControl_decodes [of ev ?s1 i vev rest strtof controls] assms(3-6) by simp
  show ?thesis
    using assms(2) by (subst parseFrame_controls.simps) (simp add: a b)
qed

lemma nextEvent_mapping_end_result:
  "fst (nextEvent YAML_MAPPING_END_EVENT st) \<noteq> None \<longleftrightarrow>
     (\<exists>e r. parser_m st = Some e # r \<and> event_type e = YAML_MAPPING_END_EVENT)"
  by (auto simp: nextEvent_def checkEvent_def Let_def split: list.splits option.splits)

lemma parseControl_empty_value_any:
  assumes "parser_m st = Some vev # rest" and "event_type vev = YAML_SCALAR_EVENT"
    and "data_scalar vev = []"
  shows "fst (parseControl strtof cev controls st) = - EINVAL \<and>
         fst (snd (parseControl strtof cev controls st)) = controls"
proof (cases "data_scalar cev = []")
  case True
  then show ?thesis by (simp add: parseControl_empty_name)
next
  case ne: False
  show ?thesis
  proof (cases "controls_m st (data_scalar cev)")
    case None
    with ne show ?thesis by (simp add: parseControl_def eventScalarValue_def)
  next
    case (Some i)
    from parseControl_empty_value [OF ne Some assms, of strtof controls]
    show ?thesis by simp
  qed
qed

lemma parseFrame_empty_key_any:
  assumes "parser_m st = Some kev # rest" and "event_type kev = YAML_SCALAR_EVENT"
    and "data_scalar kev = []"
  shows "fst (parseFrame strtof fev st) = - EINVAL \<and>
         frameControls_m (snd (parseFrame strtof fev st)) = frameControls_m st"
proof (cases "event_type fev = YAML_MAPPING_START_EVENT")
  case True
  from parseFrame_empty_key [OF True assms, of strtof] show ?thesis by simp
next
  case False
  then show ?thesis by (simp add: parseFrame_def checkEvent_def)
qed

lemma parseFrame_after_controls:
  assumes "event_type fev = YAML_MAPPING_START_EVENT"
    and "parser_m st = Some kev # Some msev # rest"
    and "event_type kev = YAML_SCALAR_EVENT" and "data_scalar kev \<noteq> []"
    and "event_type msev = YAML_MAPPING_START_EVENT"
    and "parseFrame_controls strtof Map.empty (st\<lparr>parser_m := rest\<rparr>) = (0, controls, st3)"
  shows "parseFrame strtof fev st =
     (case nextEvent YAML_MAPPING_END_EVENT
             (st3\<lparr>frameControls_m :=
                    (frameControls_m st3)(atoi (data_scalar kev) \<mapsto> controls)\<rparr>) of
        (None, st5) \<Rightarrow> (- EINVAL, st5)
      | (Some ev3, st5) \<Rightarrow> (0, st5))"
proof -
  let ?s1 = "st\<lparr>parser_m := Some msev # rest\<rparr>"
  let ?s2 = "st\<lparr>parser_m := rest\<rparr>"
  have a: "parseScalar st = (data_scalar kev, ?s1)"
    using assms(2,3) by (rule parseScalar_head)
  have b: "nextEvent YAML_MAPPING_START_EVENT ?s1 = (Some msev, ?s2)"
    using assms(5) nextEvent_head_expect [of ?s1 msev rest] by simp
  show ?thesis
    using assms(4)
    by (simp add: parseFrame_def checkEvent_ok [OF assms(1)] a b assms(6) Let_def)
qed

subsection \<open>Scripts of a given shape\<close>

lemma match_shape_Cons:
  assumes "match_shape evs (k # ks) = Some rest"
  obtains ev evs' where "evs = Some ev # evs'" and "event_type ev = fst k"
    and "\<And>s. snd k = Some s \<Longrightarrow> data_scalar ev = s"
    and "match_shape evs' ks = Some rest"
proof (cases evs)
  case Nil
  with assms show ?thesis by simp
next
  case (Cons e evs')
  with assms have m: "event_matches e k" and r: "match_shape evs' ks = Some rest"
    by (simp_all split: if_splits)
  from m obtain ev where "e = Some ev" "event_type ev = fst k"
    "\<And>s. snd k = Some s \<Longrightarrow> data_scalar ev = s"
    by (auto simp: event_matches_def split: option.splits)
  with Cons r that show ?thesis by blast
qed

lemma match_plain:
  assumes "match_shape evs (plain_shape t # ks) = Some rest"
  obtains ev evs' where "evs = Some ev # evs'" and "event_type ev = t"
    and "match_shape evs' ks = Some rest"
  using assms by (elim match_shape_Cons) (simp add: plain_shape_def)

lemma match_scalar:
  assumes "match_shape evs (scalar_shape s # ks) = Some rest"
  obtains ev evs' where "evs = Some ev # evs'" and "event_type ev = YAML_SCALAR_EVENT"
    and "data_scalar ev = s" and "match_shape evs' ks = Some rest"
  using assms by (elim match_shape_Cons) (simp add: scalar_shape_def)

lemma set_control_known:
  "cat (fst c) = Some i \<Longrightarrow>
     set_control strtof cat controls c = controls(id_m i \<mapsto> fst (unpackControl strtof i (snd c)))"
  by (simp add: set_control_def)

lemma parseFrame_controls_shape:
  assumes "match_shape (parser_m st)
             (concat (map control_shape cs) @ plain_shape YAML_MAPPING_END_EVENT # ks) = Some rest"
    and "list_all (known_control (controls_m st)) cs"
  shows "\<exists>st1. parseFrame_controls strtof controls st =
                 (0, foldl (set_control strtof (controls_m st)) controls cs, st1) \<and>
               match_shape (parser_m st1) ks = Some rest \<and>
               controls_m st1 = controls_m st \<and> frameControls_m st1 = frameControls_m st"
  using assms
proof (induction cs arbitrary: st controls)
  case Nil
  from Nil.prems(1) obtain ev evs' where p: "parser_m st = Some ev # evs'"
    and t: "event_type ev = YAML_MAPPING_END_EVENT" and m: "match_shape evs' ks = Some rest"
    by (auto elim: match_plain)
  from parseFrame_controls_end [OF p t, of strtof controls] m show ?case by simp
next
  case (Cons c cs)
  from Cons.prems(2) have kc: "known_control (controls_m st) c"
    and known: "list_all (known_control (controls_m st)) cs"
    by simp_all
  from kc have k: "fst c \<noteq> []" "snd c \<noteq> []"
    by (simp_all add: known_control_def)
  from kc obtain i where i: "controls_m st (fst c) = Some i"
    by (auto simp: known_control_def)
  from Cons.prems(1) have
    "match_shape (parser_m st)
       (scalar_shape (fst c) # scalar_shape (snd c) #
        concat (map control_shape cs) @ plain_shape YAML_MAPPING_END_EVENT # ks) = Some rest"
    by (simp add: control_shape_def [of c])
  then obtain ev vev evs' where p: "parser_m st = Some ev # Some vev # evs'"
    and e1: "event_type ev = YAML_SCALAR_EVENT" "data_scalar ev = fst c"
    and e2: "event_type vev = YAML_SCALAR_EVENT" "data_scalar vev = snd c"
    and m: "match_shape evs'
       (concat (map control_shape cs) @ plain_shape YAML_MAPPING_END_EVENT # ks) = Some rest"
    by (auto elim!: match_scalar)
  let ?c1 = "controls(id_m i \<mapsto> fst (unpackControl strtof i (snd c)))"
  let ?s1 = "st\<lparr>parser_m := evs', cerr := cerr st @ snd (unpackControl strtof i (snd c))\<rparr>"
  have step: "parseFrame_controls strtof controls st = parseFrame_controls strtof ?c1 ?s1"
    using parseFrame_controls_step [OF p, of i strtof controls] e1 e2 k i by simp
  have "\<exists>st1. parseFrame_controls strtof ?c1 ?s1 =
           (0, foldl (set_control strtof (controls_m ?s1)) ?c1 cs, st1) \<and>
         match_shape (parser_m st1) ks = Some rest \<and>
         controls_m st1 = controls_m ?s1 \<and> frameControls_m st1 = frameControls_m ?s1"
    using m known by (intro Cons.IH) simp_all
  then show ?case
    using i by (simp add: step set_control_known)
qed

lemma parseFrame_shape:
  assumes "event_type fev = YAML_MAPPING_START_EVENT"
    and "match_shape (parser_m st)
           (scalar_shape (fst f) # plain_shape YAML_MAPPING_START_EVENT #
            concat (map control_shape (snd f)) @
            plain_shape YAML_MAPPING_END_EVENT # plain_shape YAML_MAPPING_END_EVENT # ks)
         = Some rest"
    and "plain_frame (controls_m st) f"
  shows "\<exists>st1. parseFrame strtof fev st = (0, st1) \<and>
               match_shape (parser_m st1) ks = Some rest \<and>
               controls_m st1 = controls_m st \<and>
               frameControls_m st1 = store_frame strtof (controls_m st) (frameControls_m st) f"
proof -
  from assms(2) obtain kev msev evs' where p: "parser_m st = Some kev # Some msev # evs'"
    and k: "event_type kev = YAML_SCALAR_EVENT" "data_scalar kev = fst f"
    and ms: "event_type msev = YAML_MAPPING_START_EVENT"
    and m: "match_shape evs'
       (concat (map control_shape (snd f)) @
        plain_shape YAML_MAPPING_END_EVENT # plain_shape YAML_MAPPING_END_EVENT # ks) = Some rest"
    by (auto elim!: match_scalar match_plain)
  from assms(3) have ne: "data_scalar kev \<noteq> []"
    and known: "list_all (known_control (controls_m st)) (snd f)"
    by (simp_all add: plain_frame_def k)
  let ?s2 = "st\<lparr>parser_m := evs'\<rparr>"
  let ?cl = "foldl (set_control strtof (controls_m st)) Map.empty (snd f)"
  from parseFrame_controls_shape [of ?s2 "snd f" "plain_shape YAML_MAPPING_END_EVENT # ks"
      rest strtof Map.empty] m known
  obtain st3 where c: "parseFrame_controls strtof Map.empty ?s2 = (0, ?cl, st3)"
    and m3: "match_shape (parser_m st3) (plain_shape YAML_MAPPING_END_EVENT # ks) = Some rest"
    and f3: "controls_m st3 = controls_m st" "frameControls_m st3 = frameControls_m st"
    by auto
  from m3 obtain eev evs3 where p3: "parser_m st3 = Some eev # evs3"
    and e3: "event_type eev = YAML_MAPPING_END_EVENT"
    and m4: "match_shape evs3 ks = Some rest"
    by (auto elim!: match_plain)
  let ?s4 = "st3\<lparr>frameControls_m := (frameControls_m st3)(atoi (data_scalar kev) \<mapsto> ?cl)\<rparr>"
  have d: "nextEvent YAML_MAPPING_END_EVENT ?s4 = (Some eev, ?s4\<lparr>parser_m := evs3\<rparr>)"
    using nextEvent_head_expect [of ?s4 eev evs3] p3 e3 by simp
  have "parseFrame strtof fev st = (0, ?s4\<lparr>parser_m := evs3\<rparr>)"
    using parseFrame_after_controls [OF assms(1) p k(1) ne ms c] by (simp add: d)
  then show ?thesis
    using m4 f3 k by (simp add: store_frame_def)
qed

lemma parseFrames_loop_shape:
  assumes "match_shape (parser_m st)
             (concat (map frame_shape fs) @ plain_shape YAML_SEQUENCE_END_EVENT # ks) = Some rest"
    and "list_all (plain_frame (controls_m st)) fs"
  shows "\<exists>st1. parseFrames_loop strtof st = (0, st1) \<and>
               match_shape (parser_m st1) ks = Some rest \<and>
               controls_m st1 = controls_m st \<and>
               frameControls_m st1 =
                 foldl (store_frame strtof (controls_m st)) (frameControls_m st) fs"
  using assms
proof (induction fs arbitrary: st)
  case Nil
  from Nil.prems(1) obtain ev evs' where p: "parser_m st = Some ev # evs'"
    and t: "event_type ev = YAML_SEQUENCE_END_EVENT" and m: "match_shape evs' ks = Some rest"
    by (auto elim: match_plain)
  have "parseFrames_loop strtof st = (0, st\<lparr>parser_m := evs'\<rparr>)"
    using t by (subst parseFrames_loop.simps) (simp add: nextEvent_head_any [OF p])
  with m show ?case by simp
next
  case (Cons f fs)
  from Cons.prems(2) have pf: "plain_frame (controls_m st) f"
    and rest_ok: "list_all (plain_frame (controls_m st)) fs"
    by simp_all
  from Cons.prems(1) have
    "match_shape (parser_m st)
       (plain_shape YAML_MAPPING_START_EVENT # scalar_shape (fst f) #
        plain_shape YAML_MAPPING_START_EVENT # concat (map control_shape (snd f)) @
        plain_shape YAML_MAPPING_END_EVENT # plain_shape YAML_MAPPING_END_EVENT #
        concat (map frame_shape fs) @ plain_shape YAML_SEQUENCE_END_EVENT # ks) = Some rest"
    by (simp add: frame_shape_def [of f])
  then obtain fev evs' where p: "parser_m st = Some fev # evs'"
    and t: "event_type fev = YAML_MAPPING_START_EVENT"
    and m: "match_shape evs'
       (scalar_shape (fst f) #
        plain_shape YAML_MAPPING_START_EVENT # concat (map control_shape (snd f)) @
        plain_shape YAML_MAPPING_END_EVENT # plain_shape YAML_MAPPING_END_EVENT #
        concat (map frame_shape fs) @ plain_shape YAML_SEQUENCE_END_EVENT # ks) = Some rest"
    by (auto elim!: match_plain)
  let ?s1 = "st\<lparr>parser_m := evs'\<rparr>"
  from parseFrame_shape [of fev ?s1 f
      "concat (map frame_shape fs) @ plain_shape YAML_SEQUENCE_END_EVENT # ks" rest strtof]
    t m pf
  obtain st2 where r: "parseFrame strtof fev ?s1 = (0, st2)"
    and m2: "match_shape (parser_m st2)
        (concat (map frame_shape fs) @ plain_shape YAML_SEQUENCE_END_EVENT # ks) = Some rest"
    and f2: "controls_m st2 = controls_m st"
      "frameControls_m st2 = store_frame strtof (controls_m st) (frameControls_m st) f"
    by auto
  have step: "parseFrames_loop strtof st = parseFrames_loop strtof st2"
    using t by (subst parseFrames_loop.simps) (simp add: nextEvent_head_any [OF p] r)
  from Cons.IH [of st2] m2 rest_ok f2
  show ?case by (simp add: step)
qed

lemma parseScript_loop_shape:
  assumes "match_shape (parser_m st)
             (concat (map frames_shape secs) @ plain_shape YAML_MAPPING_END_EVENT # ks) = Some rest"
    and "list_all (list_all (plain_frame (controls_m st))) secs"
  shows "\<exists>st1. parseScript_loop strtof st = (0, st1) \<and>
               match_shape (parser_m st1) ks = Some rest \<and>
               controls_m st1 = controls_m st \<and>
               frameControls_m st1 =
                 foldl (store_frame strtof (controls_m st)) (frameControls_m st) (concat secs)"
  using assms
proof (induction secs arbitrary: st)
  case Nil
  from Nil.prems(1) obtain ev evs' where p: "parser_m st = Some ev # evs'"
    and t: "event_type ev = YAML_MAPPING_END_EVENT" and m: "match_shape evs' ks = Some rest"
    by (auto elim: match_plain)
  have "parseScript_loop strtof st = (0, st\<lparr>parser_m := evs'\<rparr>)"
    using t by (subst parseScript_loop.simps) (simp add: nextEvent_head_any [OF p])
  with m show ?case by simp
next
  case (Cons fs secs)
  from Cons.prems(2) have fs_ok: "list_all (plain_frame (controls_m st)) fs"
    and rest_ok: "list_all (list_all (plain_frame (controls_m st))) secs"
    by simp_all
  from Cons.prems(1) have
    "match_shape (parser_m st)
       (scalar_shape ''frames'' # plain_shape YAML_SEQUENCE_START_EVENT #
        concat (map frame_shape fs) @ plain_shape YAML_SEQUENCE_END_EVENT #
        concat (map frames_shape secs) @ plain_shape YAML_MAPPING_END_EVENT # ks) = Some rest"
    by (simp add: frames_shape_def [of fs])
  then obtain sev qev evs' where p: "parser_m st = Some sev # Some qev # evs'"
    and s: "event_type sev = YAML_SCALAR_EVENT" "data_scalar sev = ''frames''"
    and q: "event_type qev = YAML_SEQUENCE_START_EVENT"
    and m: "match_shape evs'
       (concat (map frame_shape fs) @ plain_shape YAML_SEQUENCE_END_EVENT #
        concat (map frames_shape secs) @ plain_shape YAML_MAPPING_END_EVENT # ks) = Some rest"
    by (auto elim!: match_plain match_scalar)
  let ?s1 = "st\<lparr>parser_m := Some qev # evs'\<rparr>"
  let ?s2 = "st\<lparr>parser_m := evs'\<rparr>"
  from parseFrames_loop_shape [of ?s2 fs
      "concat (map frames_shape secs) @ plain_shape YAML_MAPPING_END_EVENT # ks" rest strtof]
    m fs_ok
  obtain st3 where r: "parseFrames_loop strtof ?s2 = (0, st3)"
    and m3: "match_shape (parser_m st3)
        (concat (map frames_shape secs) @ plain_shape YAML_MAPPING_END_EVENT # ks) = Some rest"
    and f3: "controls_m st3 = controls_m st"
      "frameControls_m st3 = foldl (store_frame strtof (controls_m st)) (frameControls_m st) fs"
    by auto
  have a: "nextEvent YAML_NO_EVENT st = (Some sev, ?s1)"
    using p by (rule nextEvent_head_any)
  have b: "nextEvent YAML_SEQUENCE_START_EVENT ?s1 = (Some qev, ?s2)"
    using nextEvent_head_expect [of ?s1 qev evs'] q by simp
  have pf: "parseFrames strtof ?s1 = (0, st3)"
    by (simp add: parseFrames_def b r)
  have step: "parseScript_loop strtof st = parseScript_loop strtof st3"
    using s
    by (subst parseScript_loop.simps)
       (simp add: a checkEvent_ok eventScalarValue_def pf Let_def)
  from Cons.IH [of st3] m3 rest_ok f3
  show ?case by (simp add: step)
qed

lemma parseScript_shape:
  assumes "match_shape script (script_shape secs) = Some rest"
    and "list_all (list_all (plain_frame (controls_m st))) secs"
  shows "\<exists>st1. parseScript strtof True script st = (0, st1) \<and>
               controls_m st1 = controls_m st \<and>
               frameControls_m st1 =
                 foldl (store_frame strtof (controls_m st)) (frameControls_m st) (concat secs)"
proof -
  from assms(1) obtain e1 e2 e3 evs' where p: "script = Some e1 # Some e2 # Some e3 # evs'"
    and t: "event_type e1 = YAML_STREAM_START_EVENT"
      "event_type e2 = YAML_DOCUMENT_START_EVENT"
      "event_type e3 = YAML_MAPPING_START_EVENT"
    and m: "match_shape evs'
      (concat (map frames_shape secs) @ plain_shape YAML_MAPPING_END_EVENT # []) = Some rest"
    unfolding script_shape_def by (auto elim!: match_plain)
  let ?s0 = "st\<lparr>parser_m := script\<rparr>"
  let ?s1 = "st\<lparr>parser_m := Some e2 # Some e3 # evs'\<rparr>"
  let ?s2 = "st\<lparr>parser_m := Some e3 # evs'\<rparr>"
  let ?s3 = "st\<lparr>parser_m := evs'\<rparr>"
  have a: "nextEvent YAML_STREAM_START_EVENT ?s0 = (Some e1, ?s1)"
    using nextEvent_head_expect [of ?s0 e1 "Some e2 # Some e3 # evs'"] p t by simp
  have b: "nextEvent YAML_DOCUMENT_START_EVENT ?s1 = (Some e2, ?s2)"
    using nextEvent_head_expect [of ?s1 e2 "Some e3 # evs'"] t by simp
  have c: "nextEvent YAML_MAPPING_START_EVENT ?s2 = (Some e3, ?s3)"
    using nextEvent_head_expect [of ?s2 e3 evs'] t by simp
  from parseScript_loop_shape [of ?s3 secs "[]" rest strtof] m assms(2)
  obtain st1 where r: "parseScript_loop strtof ?s3 = (0, st1)"
    and f: "controls_m st1 = controls_m st"
      "frameControls_m st1 =
         foldl (store_frame strtof (controls_m st)) (frameControls_m st) (concat secs)"
    by auto
  have "parseScript strtof True script st = (0, st1)"
    by (simp add: parseScript_def a b c r Let_def)
  with f show ?thesis by simp
qed

section \<open>The script parser: failures\<close>

text \<open>
  C1. The claim: a script with a control name that the camera does not have aborts the
  whole parse, and the object is left invalid. Evaluated on the script
  \<^verbatim>\<open>frames: [{1: {brightness: 128}}, {0: {foo: frames}}]\<close> for a camera without
  the control \<open>foo\<close>: \<open>parseControl\<close> reports the control and fails, but \<open>parseScript\<close>
  does not read the result of \<open>parseFrames\<close> and goes on with the events that are
  left, so that the constructor ends with \<open>valid_\<close> set and the controls of frame 1
  stored.
\<close>

theorem unknown_control_accepted:
  "controls_m (CaptureScript_ctor (\<lambda>s. ()) example_camera ''script.yaml''
       (Some unknown_control_script) True) ''foo'' = None \<and>
   valid_m (CaptureScript_ctor (\<lambda>s. ()) example_camera ''script.yaml''
       (Some unknown_control_script) True) \<and>
   frameControls (CaptureScript_ctor (\<lambda>s. ()) example_camera ''script.yaml''
       (Some unknown_control_script) True) 1 = [1 \<mapsto> ValueByte 128] \<and>
   cerr (CaptureScript_ctor (\<lambda>s. ()) example_camera ''script.yaml''
       (Some unknown_control_script) True) =
     [UnsupportedControl ''foo'',
      ExpectedEvent (0, 0) ''sequence-start'' ''mapping-end'']"
  by (simp add: unknown_control_script_def frameControls_def example_defs eval_defs)

text \<open>
  C2. The claim as stated, that a frame whose closing mapping-end is missing or of
  another type is not stored, fails: with a sequence-end event, or with no event at
  all, in the place of the closing mapping-end, \<open>parseFrame\<close> returns \<open>-EINVAL\<close> and
  frame 7 is in the frame table.
\<close>

theorem frame_stored_before_closing_counterexample:
  "fst (parseFrame (\<lambda>s. ()) (plain_event YAML_MAPPING_START_EVENT)
         (example_this [scalar_event ''7'', plain_event YAML_MAPPING_START_EVENT,
            plain_event YAML_MAPPING_END_EVENT, plain_event YAML_SEQUENCE_END_EVENT]))
     = - EINVAL \<and>
   frameControls_m (snd (parseFrame (\<lambda>s. ()) (plain_event YAML_MAPPING_START_EVENT)
         (example_this [scalar_event ''7'', plain_event YAML_MAPPING_START_EVENT,
            plain_event YAML_MAPPING_END_EVENT, plain_event YAML_SEQUENCE_END_EVENT]))) 7
     = Some Map.empty \<and>
   fst (parseFrame (\<lambda>s. ()) (plain_event YAML_MAPPING_START_EVENT)
         (example_this [scalar_event ''7'', plain_event YAML_MAPPING_START_EVENT,
            plain_event YAML_MAPPING_END_EVENT]))
     = - EINVAL \<and>
   frameControls_m (snd (parseFrame (\<lambda>s. ()) (plain_event YAML_MAPPING_START_EVENT)
         (example_this [scalar_event ''7'', plain_event YAML_MAPPING_START_EVENT,
            plain_event YAML_MAPPING_END_EVENT]))) 7
     = Some Map.empty"
  by (simp add: example_defs eval_defs)

text \<open>
  C2, as amended. When the loop over the controls of a frame ends at the mapping-end
  event of the controls, \<open>parseFrame\<close> first stores the accumulated control list at the
  frame index and then reads the closing mapping-end of the frame: whatever the next
  event is, the frame is in the frame table, and \<open>parseFrame\<close> returns 0 when that event
  is a mapping-end and \<open>-EINVAL\<close> when it is of another type or missing.
\<close>

theorem frame_stored_then_closing_read:
  assumes "event_type fev = YAML_MAPPING_START_EVENT"
    and "parser_m st = Some kev # Some msev # rest"
    and "event_type kev = YAML_SCALAR_EVENT" and "data_scalar kev \<noteq> []"
    and "event_type msev = YAML_MAPPING_START_EVENT"
    and "parseFrame_controls strtof Map.empty (st\<lparr>parser_m := rest\<rparr>) = (0, controls, st3)"
  shows "frameControls_m (snd (parseFrame strtof fev st)) =
           (frameControls_m st)(atoi (data_scalar kev) \<mapsto> controls) \<and>
         fst (parseFrame strtof fev st) =
           (if \<exists>e r. parser_m st3 = Some e # r \<and> event_type e = YAML_MAPPING_END_EVENT
            then 0 else - EINVAL)"
proof -
  let ?s4 = "st3\<lparr>frameControls_m := (frameControls_m st3)(atoi (data_scalar kev) \<mapsto> controls)\<rparr>"
  have f3: "frameControls_m st3 = frameControls_m st"
    using parseFrame_controls_fields [OF assms(6)] by simp
  obtain r5 s5 where e: "nextEvent YAML_MAPPING_END_EVENT ?s4 = (r5, s5)"
    by (cases "nextEvent YAML_MAPPING_END_EVENT ?s4")
  have f5: "frameControls_m s5 = (frameControls_m st)(atoi (data_scalar kev) \<mapsto> controls)"
    using nextEvent_fields [OF e] f3 by simp
  have r5: "r5 \<noteq> None \<longleftrightarrow>
      (\<exists>e r. parser_m st3 = Some e # r \<and> event_type e = YAML_MAPPING_END_EVENT)"
    using nextEvent_mapping_end_result [of ?s4] e by simp
  have "parseFrame strtof fev st = (if r5 = None then - EINVAL else 0, s5)"
    using parseFrame_after_controls [OF assms] e by (simp split: option.splits)
  with f5 r5 show ?thesis by auto
qed

theorem frame_stored_then_closing_read_witness:
  "parseFrame_controls (\<lambda>s. ()) Map.empty
     (example_this [scalar_event ''awb'', scalar_event ''true'',
        plain_event YAML_MAPPING_END_EVENT, plain_event YAML_SEQUENCE_END_EVENT]) =
     (0, [2 \<mapsto> ValueBool True], example_this [plain_event YAML_SEQUENCE_END_EVENT]) \<and>
   frameControls_m (snd (parseFrame (\<lambda>s. ()) (plain_event YAML_MAPPING_START_EVENT)
     (example_this [scalar_event ''7'', plain_event YAML_MAPPING_START_EVENT,
        scalar_event ''awb'', scalar_event ''true'',
        plain_event YAML_MAPPING_END_EVENT, plain_event YAML_SEQUENCE_END_EVENT]))) =
     [7 \<mapsto> [2 \<mapsto> ValueBool True]] \<and>
   fst (parseFrame (\<lambda>s. ()) (plain_event YAML_MAPPING_START_EVENT)
     (example_this [scalar_event ''7'', plain_event YAML_MAPPING_START_EVENT,
        scalar_event ''awb'', scalar_event ''true'',
        plain_event YAML_MAPPING_END_EVENT, plain_event YAML_SEQUENCE_END_EVENT])) = - EINVAL"
proof -
  have c: "parseFrame_controls (\<lambda>s. ()) Map.empty
     (example_this [scalar_event ''awb'', scalar_event ''true'',
        plain_event YAML_MAPPING_END_EVENT, plain_event YAML_SEQUENCE_END_EVENT]) =
     (0, [2 \<mapsto> ValueBool True], example_this [plain_event YAML_SEQUENCE_END_EVENT])"
    by (simp add: example_defs eval_defs)
  have k: "atoi ''7'' = 7" by (simp add: eval_defs)
  show ?thesis
    using c k frame_stored_then_closing_read [where strtof = "\<lambda>s. ()"
        and fev = "plain_event YAML_MAPPING_START_EVENT"
        and st = "example_this [scalar_event ''7'', plain_event YAML_MAPPING_START_EVENT,
          scalar_event ''awb'', scalar_event ''true'',
          plain_event YAML_MAPPING_END_EVENT, plain_event YAML_SEQUENCE_END_EVENT]"
        and kev = "scalar_event ''7''" and msev = "plain_event YAML_MAPPING_START_EVENT"
        and rest = "map Some [scalar_event ''awb'', scalar_event ''true'',
          plain_event YAML_MAPPING_END_EVENT, plain_event YAML_SEQUENCE_END_EVENT]"
        and controls = "[2 \<mapsto> ValueBool True]"
        and ?st3.0 = "example_this [plain_event YAML_SEQUENCE_END_EVENT]"]
    by (simp add: example_this_def scalar_event_def plain_event_def)
qed

text \<open>
  C8. The claim: a script whose top-level mapping has a key other than \<open>frames\<close>
  aborts with an unsupported-section diagnostic, and the object is left invalid.
  Evaluated on the script \<^verbatim>\<open>{frames: {}, shots: 1}\<close>: \<open>parseFrames\<close> fails at
  the mapping-start event, \<open>parseScript\<close> does not read its result and takes the
  mapping-end event that follows for the end of the top-level mapping, so that it
  returns 0 before the key \<open>shots\<close> is read; the constructor ends with \<open>valid_\<close> set
  and no diagnostic for the section.
\<close>

theorem other_section_accepted:
  "valid_m (CaptureScript_ctor (\<lambda>s. ()) example_camera ''script.yaml''
       (Some other_section_script) True) \<and>
   cerr (CaptureScript_ctor (\<lambda>s. ()) example_camera ''script.yaml''
       (Some other_section_script) True) =
     [ExpectedEvent (0, 0) ''sequence-start'' ''mapping-start''] \<and>
   parser_m (CaptureScript_ctor (\<lambda>s. ()) example_camera ''script.yaml''
       (Some other_section_script) True) =
     map Some [scalar_event ''shots'', scalar_event ''1'',
       plain_event YAML_MAPPING_END_EVENT,
       plain_event YAML_DOCUMENT_END_EVENT, plain_event YAML_STREAM_END_EVENT]"
  by (simp add: other_section_script_def example_defs eval_defs)


section \<open>The value decoder: claims\<close>

text \<open>
  C3. The value that \<open>unpackControl\<close> returns for a control id and a text is empty or
  holds the variant of the type that the id declares; and every value that the
  constructor stores in the control list of any frame is, under its numeric id, empty
  or of the type declared by a control of the camera with that id.
\<close>

theorem decoded_value_type:
  "(fst (unpackControl strtof i repr) = ControlValueNone \<or>
    ControlValue_type (fst (unpackControl strtof i repr)) = type_m i) \<and>
   (\<forall>frame k v.
      frameControls (CaptureScript_ctor strtof camera_controls fileName fh yaml_init_ok) frame k
        = Some v
      \<longrightarrow> typed_value camera_controls k v)"
proof -
  let ?r = "CaptureScript_ctor strtof camera_controls fileName fh yaml_init_ok"
  have "typed_value camera_controls k v" if "frameControls ?r frame k = Some v" for frame k v
  proof -
    from that obtain cl where cl: "frameControls_m ?r frame = Some cl" and v: "cl k = Some v"
      by (auto simp: frameControls_def split: option.splits)
    from ctor_invariant [OF refl, of strtof camera_controls fileName fh yaml_init_ok] cl
    have "typed_list (controls_m ?r) cl"
      and mem: "\<forall>n i. controls_m ?r n = Some i \<longrightarrow> i \<in> set camera_controls"
      by (auto simp: typed_table_def)
    with v obtain n i where "controls_m ?r n = Some i" "id_m i = k"
      "v = ControlValueNone \<or> ControlValue_type v = type_m i"
      unfolding typed_list_def by blast
    with mem show ?thesis
      unfolding typed_value_def list_ex_iff by blast
  qed
  with unpackControl_type [of strtof i repr] show ?thesis by blast
qed

theorem decoded_value_type_witness:
  "frameControls example_object 5 2 = Some (ValueBool True) \<and>
   typed_value example_camera 2 (ValueBool True :: unit ControlValue)"
proof -
  have a: "frameControls example_object 5 2 = Some (ValueBool True)"
    by (simp add: frameControls_def example_defs eval_defs)
  from decoded_value_type [of "\<lambda>s. ()" awb "''true''" example_camera "''example.yaml''"
      "Some example_script" True] a
  show ?thesis by (simp add: example_object_def)
qed

text \<open>
  C4. For a control of type bool, the text \<open>true\<close> decodes to the bool true and the
  text \<open>false\<close> to the bool false, both without a diagnostic; every other text decodes
  to the empty value and one diagnostic is written. \<open>parseControl\<close> then stores the empty
  value and returns 0, so the parse is not aborted.
\<close>

theorem bool_decode:
  assumes "type_m i = ControlTypeBool"
  shows "unpackControl strtof i ''true'' = (ValueBool True, []) \<and>
    unpackControl strtof i ''false'' = (ValueBool False, []) \<and>
    (repr \<noteq> ''true'' \<and> repr \<noteq> ''false'' \<longrightarrow>
       unpackControl strtof i repr =
         (ControlValueNone, [UnsupportedRepr repr ''bool'' (name_m i)])) \<and>
    (repr \<noteq> ''true'' \<and> repr \<noteq> ''false'' \<and> repr \<noteq> [] \<and> data_scalar ev \<noteq> [] \<and>
     controls_m st (data_scalar ev) = Some i \<and>
     parser_m st = Some vev # rest \<and> event_type vev = YAML_SCALAR_EVENT \<and>
     data_scalar vev = repr \<longrightarrow>
       parseControl strtof ev controls st =
         (0, controls(id_m i \<mapsto> ControlValueNone),
          st\<lparr>parser_m := rest,
             cerr := cerr st @ [UnsupportedRepr repr ''bool'' (name_m i)]\<rparr>))"
proof -
  have "parseControl strtof ev controls st =
         (0, controls(id_m i \<mapsto> ControlValueNone),
          st\<lparr>parser_m := rest,
             cerr := cerr st @ [UnsupportedRepr repr ''bool'' (name_m i)]\<rparr>)"
    if "repr \<noteq> ''true''" "repr \<noteq> ''false''" "repr \<noteq> []" "data_scalar ev \<noteq> []"
     "controls_m st (data_scalar ev) = Some i"
     "parser_m st = Some vev # rest" "event_type vev = YAML_SCALAR_EVENT"
     "data_scalar vev = repr"
    using that parseControl_decodes [of ev st i vev rest strtof controls]
    by (simp add: unpackControl_Bool [OF assms])
  then show ?thesis
    by (simp add: unpackControl_Bool [OF assms])
qed

theorem bool_decode_witness:
  "type_m awb = ControlTypeBool \<and>
   unpackControl (\<lambda>s. ()) awb ''true'' = (ValueBool True, []) \<and>
   unpackControl (\<lambda>s. ()) awb ''false'' = (ValueBool False, []) \<and>
   unpackControl (\<lambda>s. ()) awb ''yes'' =
     (ControlValueNone, [UnsupportedRepr ''yes'' ''bool'' ''awb'']) \<and>
   parseControl (\<lambda>s. ()) (scalar_event ''awb'') Map.empty (example_this [scalar_event ''yes'']) =
     (0, [2 \<mapsto> ControlValueNone],
      example_this [scalar_event ''yes'']
        \<lparr>parser_m := [], cerr := [UnsupportedRepr ''yes'' ''bool'' ''awb'']\<rparr>)"
proof -
  have t: "type_m awb = ControlTypeBool" by (simp add: awb_def)
  show ?thesis
    using bool_decode [OF t, of "\<lambda>s. ()" "''yes''" "scalar_event ''awb''"
        "example_this [scalar_event ''yes'']" "scalar_event ''yes''" "[]" Map.empty]
    by (simp add: example_defs scalar_event_def)
qed

text \<open>
  C5. The claim as stated, that a decimal literal decodes to its exact value and a
  text that is not a number to zero, fails: for a 32-bit control the literal
  \<open>4294967296\<close> decodes to 0 and \<open>2147483648\<close> to \<open>-2147483648\<close>; for a 64-bit control
  the literal \<open>9223372036854775808\<close> decodes to \<open>9223372036854775807\<close>, and for a byte
  control, where its value modulo 256 is 0, to 255; for a float control the literal
  \<open>16777217\<close> decodes to the float 16777216 and the literal \<open>0.1\<close> to the float
  \<open>13421773 * 2 ^ - 27\<close>, which is not a tenth; and the texts \<open>inf\<close> and \<open>nan\<close>, which
  hold no digit, decode to infinity and to a NaN.
\<close>

theorem numeric_not_exact_counterexample:
  "decimal_literal ''4294967296'' \<and> literal_value ''4294967296'' = 4294967296 \<and>
   unpackControl (\<lambda>s. ()) int32_control ''4294967296'' = (ValueInteger32 0, []) \<and>
   decimal_literal ''2147483648'' \<and> literal_value ''2147483648'' = 2147483648 \<and>
   unpackControl (\<lambda>s. ()) int32_control ''2147483648'' = (ValueInteger32 (- 2147483648), []) \<and>
   sint (- 2147483648 :: 32 word) = - 2147483648 \<and>
   decimal_literal ''9223372036854775808'' \<and>
   literal_value ''9223372036854775808'' = 9223372036854775808 \<and>
   unpackControl (\<lambda>s. ()) exposure ''9223372036854775808'' =
     (ValueInteger64 9223372036854775807, []) \<and>
   sint (9223372036854775807 :: 64 word) = 9223372036854775807 \<and>
   literal_value ''9223372036854775808'' mod 256 = 0 \<and>
   unpackControl (\<lambda>s. ()) brightness ''9223372036854775808'' = (ValueByte 255, []) \<and>
   decimal_literal ''16777217'' \<and> literal_value ''16777217'' = 16777217 \<and>
   unpackControl strtof_C lens ''16777217'' = (ValueFloat (Finite False 8388608 1), []) \<and>
   float32_scaled (Finite False 8388608 1) = Some (16777216 * 2 ^ 149) \<and>
   float_literal [] ''0'' (Some ''1'') None \<and> float_text [] ''0'' (Some ''1'') None = ''0.1'' \<and>
   unpackControl strtof_C lens ''0.1'' = (ValueFloat (Finite False 13421773 (- 27)), []) \<and>
   float32_scaled (Finite False 13421773 (- 27)) = Some (13421773 * 2 ^ 122) \<and>
   \<not> float_literal_scaled [] ''0'' (Some ''1'') None (13421773 * 2 ^ 122) \<and>
   non_numeric ''inf'' \<and>
   unpackControl strtof_C lens ''inf'' = (ValueFloat (Infinity False), []) \<and>
   non_numeric ''nan'' \<and>
   unpackControl strtof_C lens ''nan'' = (ValueFloat (NaN False), [])"
proof -
  have a: "decimal_literal ''4294967296'' \<and> literal_value ''4294967296'' = 4294967296 \<and>
     unpackControl (\<lambda>s. ()) int32_control ''4294967296'' = (ValueInteger32 0, []) \<and>
     decimal_literal ''2147483648'' \<and> literal_value ''2147483648'' = 2147483648 \<and>
     unpackControl (\<lambda>s. ()) int32_control ''2147483648'' = (ValueInteger32 (- 2147483648), []) \<and>
     sint (- 2147483648 :: 32 word) = - 2147483648"
    by (simp add: decimal_literal_def literal_value_def int32_control_def eval_defs)
  have b: "decimal_literal ''9223372036854775808'' \<and>
     literal_value ''9223372036854775808'' = 9223372036854775808 \<and>
     unpackControl (\<lambda>s. ()) exposure ''9223372036854775808'' =
       (ValueInteger64 9223372036854775807, []) \<and>
     sint (9223372036854775807 :: 64 word) = 9223372036854775807 \<and>
     literal_value ''9223372036854775808'' mod 256 = 0 \<and>
     unpackControl (\<lambda>s. ()) brightness ''9223372036854775808'' = (ValueByte 255, [])"
    by (simp add: decimal_literal_def literal_value_def exposure_def brightness_def eval_defs)
  have c: "decimal_literal ''16777217'' \<and> literal_value ''16777217'' = 16777217 \<and>
     unpackControl strtof_C lens ''16777217'' = (ValueFloat (Finite False 8388608 1), [])"
    by (simp add: decimal_literal_def literal_value_def lens_def eval_defs float_defs)
  have d: "float32_scaled (Finite False 8388608 1) = Some (16777216 * 2 ^ 149)"
    by simp
  have e: "non_numeric ''inf'' \<and>
     unpackControl strtof_C lens ''inf'' = (ValueFloat (Infinity False), []) \<and>
     non_numeric ''nan'' \<and>
     unpackControl strtof_C lens ''nan'' = (ValueFloat (NaN False), [])"
    by (simp add: non_numeric_def lens_def eval_defs float_defs)
  have f: "float_literal [] ''0'' (Some ''1'') None \<and>
     float_text [] ''0'' (Some ''1'') None = ''0.1''"
    by (simp add: float_literal_defs isdigit_def)
  have g: "unpackControl strtof_C lens ''0.1'' = (ValueFloat (Finite False 13421773 (- 27)), [])"
    by (simp add: lens_def eval_defs float_defs)
  have h: "float32_scaled (Finite False 13421773 (- 27)) = Some (13421773 * 2 ^ 122) \<and>
     \<not> float_literal_scaled [] ''0'' (Some ''1'') None (13421773 * 2 ^ 122)"
    by (simp add: float_literal_defs digit_value_def)
  from a b c d e f g h show ?thesis by blast
qed

text \<open>
  C5, as amended. For a decimal literal (an optional sign and decimal digits), a byte
  control and a 32-bit control get the value of the literal limited to the range of
  \<open>long\<close> and then cut to 8 and to 32 bits, and a 64-bit control gets the value limited
  to the range of \<open>long long\<close>; so a byte is the value modulo 256 when the literal is in
  the range of \<open>long\<close>, and a 32-bit and a 64-bit control hold the exact value when it
  is in the range of the type. A float control, decoded with the \<open>strtof\<close> of the C
  library, holds the exact value of the literal when that value is a 32-bit float
  (\<open>m * 2 ^ e\<close> with \<open>m < 2 ^ 24\<close> and \<open>e \<le> 104\<close>); so does it for a decimal floating
  literal, with a point or an exponent, whose value is a 32-bit float (its value times
  \<open>2 ^ 149\<close> is \<open>n * 2 ^ j\<close> with \<open>n < 2 ^ 24\<close> and \<open>j \<le> 253\<close>). A text without a
  decimal digit decodes to 0 for the three integer types, and to the float zero for a
  float control unless it begins, after white space and a sign, with \<open>inf\<close> or \<open>nan\<close>.
  No diagnostic is written in any of these cases.
\<close>

theorem numeric_decode:
  "(decimal_literal s \<longrightarrow>
     (type_m i = ControlTypeByte \<longrightarrow>
        unpackControl strtof i s =
          (ValueByte (word_of_int (max LONG_MIN (min LONG_MAX (literal_value s)))), [])) \<and>
     (type_m i = ControlTypeByte \<and> LONG_MIN \<le> literal_value s \<and>
      literal_value s \<le> LONG_MAX \<longrightarrow>
        (\<exists>w. unpackControl strtof i s = (ValueByte w, []) \<and>
             uint w = literal_value s mod 256)) \<and>
     (type_m i = ControlTypeInteger32 \<longrightarrow>
        unpackControl strtof i s =
          (ValueInteger32 (word_of_int (max LONG_MIN (min LONG_MAX (literal_value s)))), [])) \<and>
     (type_m i = ControlTypeInteger32 \<and> - (2 ^ 31) \<le> literal_value s \<and>
      literal_value s < 2 ^ 31 \<longrightarrow>
        (\<exists>w. unpackControl strtof i s = (ValueInteger32 w, []) \<and> sint w = literal_value s)) \<and>
     (type_m i = ControlTypeInteger64 \<longrightarrow>
        unpackControl strtof i s =
          (ValueInteger64 (word_of_int (max LLONG_MIN (min LLONG_MAX (literal_value s)))), [])) \<and>
     (type_m i = ControlTypeInteger64 \<and> - (2 ^ 63) \<le> literal_value s \<and>
      literal_value s < 2 ^ 63 \<longrightarrow>
        (\<exists>w. unpackControl strtof i s = (ValueInteger64 w, []) \<and> sint w = literal_value s)) \<and>
     (type_m i = ControlTypeFloat \<and> \<bar>literal_value s\<bar> = int (m * 2 ^ e) \<and>
      m < 2 ^ 24 \<and> e \<le> 104 \<longrightarrow>
        (\<exists>f. unpackControl strtof_C i s = (ValueFloat f, []) \<and>
             float32_scaled f = Some (literal_value s * 2 ^ 149)))) \<and>
   (float_literal sg ip fp ex \<and> type_m i = ControlTypeFloat \<and>
    float_literal_scaled sg ip fp ex v \<and> \<bar>v\<bar> = int (n * 2 ^ j) \<and> n < 2 ^ 24 \<and> j \<le> 253 \<longrightarrow>
      (\<exists>f. unpackControl strtof_C i (float_text sg ip fp ex) = (ValueFloat f, []) \<and>
           float32_scaled f = Some v)) \<and>
   (non_numeric t \<longrightarrow>
     (type_m i = ControlTypeByte \<longrightarrow> unpackControl strtof i t = (ValueByte 0, [])) \<and>
     (type_m i = ControlTypeInteger32 \<longrightarrow> unpackControl strtof i t = (ValueInteger32 0, [])) \<and>
     (type_m i = ControlTypeInteger64 \<longrightarrow> unpackControl strtof i t = (ValueInteger64 0, [])) \<and>
     (type_m i = ControlTypeFloat \<and> \<not> special_float_text t \<longrightarrow>
        unpackControl strtof_C i t = (ValueFloat float32_zero, [])))"
  (is "?literal \<and> ?floating \<and> ?no_digit")
proof -
  have f0: "unpackControl strtof_C i t = (ValueFloat float32_zero, [])"
    if "non_numeric t" "type_m i = ControlTypeFloat" "\<not> special_float_text t"
    using that by (simp add: unpackControl_def strtof_C_non_numeric)
  have a: ?literal
    using unpackControl_literal [of s i strtof] unpackControl_float_literal [of s i m e]
    by blast
  have b: ?floating
    using unpackControl_float_text [where sg = sg and ip = ip and fp = fp and ex = ex and i = i
        and v = v and m = n and j = j]
    by blast
  have c: ?no_digit
    using unpackControl_non_numeric [of t i strtof] f0
    by blast
  from a b c show ?thesis by (intro conjI)
qed

theorem numeric_decode_witness:
  "decimal_literal ''300'' \<and> literal_value ''300'' = 300 \<and>
   unpackControl (\<lambda>s. ()) brightness ''300'' = (ValueByte 44, []) \<and>
   decimal_literal ''-12'' \<and> literal_value ''-12'' = - 12 \<and>
   unpackControl (\<lambda>s. ()) int32_control ''-12'' = (ValueInteger32 (- 12), []) \<and>
   sint (- 12 :: 32 word) = - 12 \<and>
   unpackControl (\<lambda>s. ()) exposure ''-12'' = (ValueInteger64 (- 12), []) \<and>
   unpackControl strtof_C lens ''-12'' = (ValueFloat (Finite True 12582912 (- 20)), []) \<and>
   float32_scaled (Finite True 12582912 (- 20)) = Some (- 12 * 2 ^ 149) \<and>
   float_literal ''-'' ''2'' (Some ''5'') None \<and>
   float_text ''-'' ''2'' (Some ''5'') None = ''-2.5'' \<and>
   float_literal_scaled ''-'' ''2'' (Some ''5'') None (- (5 * 2 ^ 148)) \<and>
   unpackControl strtof_C lens ''-2.5'' = (ValueFloat (Finite True 10485760 (- 22)), []) \<and>
   float32_scaled (Finite True 10485760 (- 22)) = Some (- (5 * 2 ^ 148)) \<and>
   float_literal [] ''125'' None (Some (CHR ''e'', ''-'', ''3'')) \<and>
   float_text [] ''125'' None (Some (CHR ''e'', ''-'', ''3'')) = ''125e-3'' \<and>
   float_literal_scaled [] ''125'' None (Some (CHR ''e'', ''-'', ''3'')) (2 ^ 146) \<and>
   unpackControl strtof_C lens ''125e-3'' = (ValueFloat (Finite False 8388608 (- 26)), []) \<and>
   float32_scaled (Finite False 8388608 (- 26)) = Some (2 ^ 146) \<and>
   non_numeric ''abc'' \<and>
   unpackControl (\<lambda>s. ()) brightness ''abc'' = (ValueByte 0, []) \<and>
   unpackControl (\<lambda>s. ()) int32_control ''abc'' = (ValueInteger32 0, []) \<and>
   unpackControl (\<lambda>s. ()) exposure ''abc'' = (ValueInteger64 0, []) \<and>
   unpackControl strtof_C lens ''abc'' = (ValueFloat (Finite False 0 (- 149)), [])"
proof -
  have a: "decimal_literal ''300''" "literal_value ''300'' = 300"
    by (simp_all add: decimal_literal_def literal_value_def isdigit_def digit_value_def)
  have b: "decimal_literal ''-12''" "literal_value ''-12'' = - 12"
    by (simp_all add: decimal_literal_def literal_value_def isdigit_def digit_value_def)
  have c: "non_numeric ''abc''"
    by (simp add: non_numeric_def isdigit_def)
  have d: "\<not> special_float_text ''abc''"
    by (simp add: eval_defs float_defs)
  have e: "unpackControl strtof_C lens ''-12'' = (ValueFloat (Finite True 12582912 (- 20)), [])"
    by (simp add: lens_def eval_defs float_defs)
  have f: "float32_scaled (Finite True 12582912 (- 20)) = Some (- 12 * 2 ^ 149)"
    by simp
  have g: "float_literal ''-'' ''2'' (Some ''5'') None"
    "float_text ''-'' ''2'' (Some ''5'') None = ''-2.5''"
    "float_literal_scaled ''-'' ''2'' (Some ''5'') None (- (5 * 2 ^ 148))"
    by (simp_all add: float_literal_defs isdigit_def digit_value_def)
  have h: "unpackControl strtof_C lens ''-2.5'' = (ValueFloat (Finite True 10485760 (- 22)), [])"
    "float32_scaled (Finite True 10485760 (- 22)) = Some (- (5 * 2 ^ 148))"
    by (simp_all add: lens_def eval_defs float_defs)
  have k: "float_literal [] ''125'' None (Some (CHR ''e'', ''-'', ''3''))"
    "float_text [] ''125'' None (Some (CHR ''e'', ''-'', ''3'')) = ''125e-3''"
    "float_literal_scaled [] ''125'' None (Some (CHR ''e'', ''-'', ''3'')) (2 ^ 146)"
    by (simp_all add: float_literal_defs isdigit_def digit_value_def)
  have l: "unpackControl strtof_C lens ''125e-3'' = (ValueFloat (Finite False 8388608 (- 26)), [])"
    "float32_scaled (Finite False 8388608 (- 26)) = Some (2 ^ 146)"
    by (simp_all add: lens_def eval_defs float_defs)
  show ?thesis
    using a b c d e f g h k l
      numeric_decode [where strtof = "\<lambda>s. ()" and i = brightness and s = "''300''"
        and t = "''abc''"]
      numeric_decode [where strtof = "\<lambda>s. ()" and i = int32_control and s = "''-12''"
        and t = "''abc''"]
      numeric_decode [where strtof = "\<lambda>s. ()" and i = exposure and s = "''-12''"
        and t = "''abc''"]
      numeric_decode [where strtof = "\<lambda>s. ()" and i = lens and s = "''-12''"
        and t = "''abc''" and m = 3 and e = 2 and sg = "''-''" and ip = "''2''"
        and fp = "Some ''5''" and ex = None and v = "- (5 * 2 ^ 148)" and n = 5 and j = 148]
      numeric_decode [where strtof = "\<lambda>s. ()" and i = lens and s = "''-12''"
        and t = "''abc''" and m = 3 and e = 2 and sg = "[]" and ip = "''125''"
        and fp = None and ex = "Some (CHR ''e'', ''-'', ''3'')" and v = "2 ^ 146" and n = 1
        and j = 146]
    by (simp add: brightness_def int32_control_def exposure_def lens_def float32_zero_def
          LONG_MIN_def LONG_MAX_def LLONG_MIN_def LLONG_MAX_def)
qed

text \<open>
  C6. \<open>unpackControl\<close> writes a diagnostic exactly when the control is of type bool and
  the text is neither \<open>true\<close> nor \<open>false\<close>; for the types Rectangle and Size it returns
  the empty value for every text; and after a bool text that it does not support, the
  loop over the controls of the frame goes on with the next event, the empty value
  stored for the control and the diagnostic written.
\<close>

theorem decode_failure_reporting:
  "(snd (unpackControl strtof i repr) \<noteq> [] \<longleftrightarrow>
      type_m i = ControlTypeBool \<and> repr \<noteq> ''true'' \<and> repr \<noteq> ''false'') \<and>
   (type_m i = ControlTypeRectangle \<or> type_m i = ControlTypeSize \<longrightarrow>
      unpackControl strtof i repr = (ControlValueNone, [])) \<and>
   (type_m i = ControlTypeBool \<and> repr \<noteq> ''true'' \<and> repr \<noteq> ''false'' \<and> repr \<noteq> [] \<and>
    parser_m st = Some ev # Some vev # rest \<and>
    event_type ev \<noteq> YAML_MAPPING_END_EVENT \<and> data_scalar ev \<noteq> [] \<and>
    controls_m st (data_scalar ev) = Some i \<and>
    event_type vev = YAML_SCALAR_EVENT \<and> data_scalar vev = repr \<longrightarrow>
      parseFrame_controls strtof controls st =
        parseFrame_controls strtof (controls(id_m i \<mapsto> ControlValueNone))
          (st\<lparr>parser_m := rest,
              cerr := cerr st @ [UnsupportedRepr repr ''bool'' (name_m i)]\<rparr>))"
proof -
  have "parseFrame_controls strtof controls st =
        parseFrame_controls strtof (controls(id_m i \<mapsto> ControlValueNone))
          (st\<lparr>parser_m := rest,
              cerr := cerr st @ [UnsupportedRepr repr ''bool'' (name_m i)]\<rparr>)"
    if "type_m i = ControlTypeBool" "repr \<noteq> ''true''" "repr \<noteq> ''false''" "repr \<noteq> []"
      "parser_m st = Some ev # Some vev # rest"
      "event_type ev \<noteq> YAML_MAPPING_END_EVENT" "data_scalar ev \<noteq> []"
      "controls_m st (data_scalar ev) = Some i"
      "event_type vev = YAML_SCALAR_EVENT" "data_scalar vev = repr"
    using parseFrame_controls_step [of st ev vev rest i strtof controls] that
    by (simp add: unpackControl_Bool)
  moreover have "unpackControl strtof i repr = (ControlValueNone, [])"
    if "type_m i = ControlTypeRectangle \<or> type_m i = ControlTypeSize"
    using that by (auto simp: unpackControl_def)
  ultimately show ?thesis
    using unpackControl_msgs [of strtof i repr] by blast
qed

theorem decode_failure_reporting_witness:
  "snd (unpackControl (\<lambda>s. ()) awb ''yes'') \<noteq> [] \<and>
   unpackControl (\<lambda>s. ()) crop ''(0,0)/640x480'' = (ControlValueNone, []) \<and>
   parseFrame_controls (\<lambda>s. ()) Map.empty
     (example_this [scalar_event ''awb'', scalar_event ''yes'',
                    plain_event YAML_MAPPING_END_EVENT]) =
     (0, [2 \<mapsto> ControlValueNone],
      example_this [] \<lparr>cerr := [UnsupportedRepr ''yes'' ''bool'' ''awb'']\<rparr>)"
proof -
  have r: "parseFrame_controls (\<lambda>s. ()) [2 \<mapsto> ControlValueNone]
      (example_this [plain_event YAML_MAPPING_END_EVENT]
         \<lparr>cerr := [UnsupportedRepr ''yes'' ''bool'' ''awb'']\<rparr>) =
     (0, [2 \<mapsto> ControlValueNone],
      example_this [] \<lparr>cerr := [UnsupportedRepr ''yes'' ''bool'' ''awb'']\<rparr>)"
    by (simp add: example_defs eval_defs)
  show ?thesis
    using decode_failure_reporting [of "\<lambda>s. ()" awb "''yes''"
        "example_this [scalar_event ''awb'', scalar_event ''yes'',
                       plain_event YAML_MAPPING_END_EVENT]"
        "scalar_event ''awb''" "scalar_event ''yes''"
        "[Some (plain_event YAML_MAPPING_END_EVENT)]" Map.empty]
      decode_failure_reporting [of "\<lambda>s. ()" crop "''(0,0)/640x480''"]
      r
    by (simp add: example_defs crop_def scalar_event_def plain_event_def)
qed

section \<open>The frame table\<close>

text \<open>
  C7. \<open>frameControls\<close> returns the empty control list for every frame index that has
  no entry in the frame table, and the stored control list for every frame index that
  has one. The function is total: there is no error result.
\<close>

theorem frameControls_lookup:
  "(frameControls_m st frame = None \<longrightarrow> frameControls st frame = Map.empty) \<and>
   (\<forall>controls. frameControls_m st frame = Some controls
      \<longrightarrow> frameControls st frame = controls)"
  by (simp add: frameControls_def)

theorem frameControls_lookup_witness:
  "frameControls_m example_object 3 = None \<and>
   frameControls example_object 3 = Map.empty \<and>
   frameControls_m example_object 5 = Some [2 \<mapsto> ValueBool True] \<and>
   frameControls example_object 5 = [2 \<mapsto> ValueBool True]"
proof -
  have a: "frameControls_m example_object 3 = None"
    by (simp add: example_defs eval_defs)
  have b: "frameControls_m example_object 5 = Some [2 \<mapsto> ValueBool True]"
    by (simp add: example_defs eval_defs)
  from a b frameControls_lookup [of example_object 3] frameControls_lookup [of example_object 5]
  show ?thesis by simp
qed

text \<open>
  C10. A script with any number of \<open>frames\<close> sections, each a sequence of plain frame
  entries, is accepted: the constructor ends with \<open>valid_\<close> set, and the frame table
  is the result of storing the frame entries of all the sections, in the order of the
  script, into one table, a later entry for a frame index replacing an earlier one.
\<close>

theorem frames_sections_accumulate:
  assumes "match_shape script (script_shape secs) = Some rest"
    and "list_all (list_all (plain_frame (camera_names camera_controls))) secs"
  shows "valid_m (CaptureScript_ctor strtof camera_controls fileName (Some script) True) \<and>
         frameControls_m (CaptureScript_ctor strtof camera_controls fileName (Some script) True) =
           foldl (store_frame strtof (camera_names camera_controls)) Map.empty (concat secs)"
proof -
  let ?this1 = "\<lparr>controls_m = camera_names camera_controls, frameControls_m = Map.empty,
                 parser_m = [], valid_m = False, cerr = []\<rparr> :: 'a CaptureScript"
  from parseScript_shape [of script secs rest ?this1 strtof] assms
  obtain st1 where r: "parseScript strtof True script ?this1 = (0, st1)"
    and f: "frameControls_m st1 =
      foldl (store_frame strtof (camera_names camera_controls)) Map.empty (concat secs)"
    by auto
  have "CaptureScript_ctor strtof camera_controls fileName (Some script) True =
          st1\<lparr>valid_m := True\<rparr>"
    using r by (simp add: CaptureScript_ctor_def camera_names_def Let_def)
  with f show ?thesis by simp
qed

theorem frames_sections_accumulate_witness:
  "match_shape two_sections_script (script_shape two_sections) =
     Some (map Some [plain_event YAML_DOCUMENT_END_EVENT, plain_event YAML_STREAM_END_EVENT]) \<and>
   list_all (list_all (plain_frame (camera_names example_camera))) two_sections \<and>
   valid_m (CaptureScript_ctor (\<lambda>s. ()) example_camera ''two.yaml''
              (Some two_sections_script) True) \<and>
   frameControls (CaptureScript_ctor (\<lambda>s. ()) example_camera ''two.yaml''
              (Some two_sections_script) True) 0 = [2 \<mapsto> ValueBool False] \<and>
   frameControls (CaptureScript_ctor (\<lambda>s. ()) example_camera ''two.yaml''
              (Some two_sections_script) True) 2 = [2 \<mapsto> ValueBool True]"
proof -
  have a: "match_shape two_sections_script (script_shape two_sections) =
     Some (map Some [plain_event YAML_DOCUMENT_END_EVENT, plain_event YAML_STREAM_END_EVENT])"
    by (simp add: two_sections_script_def two_sections_def script_shape_def frames_shape_def
          frame_shape_def control_shape_def event_matches_def scalar_shape_def plain_shape_def
          scalar_event_def plain_event_def)
  have b: "list_all (list_all (plain_frame (camera_names example_camera))) two_sections"
    by (simp add: two_sections_def plain_frame_def known_control_def camera_names_def
          example_defs)
  have c: "foldl (store_frame (\<lambda>s. ()) (camera_names example_camera)) Map.empty
             (concat two_sections) 0 = Some [2 \<mapsto> ValueBool False]"
      "foldl (store_frame (\<lambda>s. ()) (camera_names example_camera)) Map.empty
             (concat two_sections) 2 = Some [2 \<mapsto> ValueBool True]"
    by (simp_all add: two_sections_def store_frame_def set_control_def camera_names_def
          example_defs eval_defs)
  from frames_sections_accumulate [OF a b, of "\<lambda>s. ()" "''two.yaml''"] a b c
  show ?thesis by (simp add: frameControls_def)
qed

end
